theory Spec2Isabelle
  imports Main
begin

section \<open>Values, iterators and errors\<close>

text \<open>
  The windows run over arbitrary Python values; the logical strategies only look at their
  truthiness (\<^verbatim>\<open>if not val\<close>, \<^verbatim>\<open>if val\<close>). Integers are Python's unbounded ones.
\<close>

datatype pyval = PyNone | PyBool bool | PyInt int | PyStr string

fun truthy :: "pyval \<Rightarrow> bool" where
  "truthy PyNone = False"
| "truthy (PyBool b) = b"
| "truthy (PyInt n) = (n \<noteq> 0)"
| "truthy (PyStr s) = (s \<noteq> [])"

datatype error = ConfigurationError | ValueError

text \<open>
  \<^verbatim>\<open>self._iterator\<close> is a forward-only iterator: the list of the values not yet consumed.
  \<^verbatim>\<open>next(self._iterator)\<close> either hands out the first of them or raises StopIteration
  (\<open>None\<close>).
\<close>

definition next_val :: "'a list \<Rightarrow> ('a \<times> 'a list) option" where
  "next_val it = (case it of [] \<Rightarrow> None | val # rest \<Rightarrow> Some (val, rest))"

text \<open>
  \<^verbatim>\<open>islice(iterator, stop)\<close>, consumed to its end: the first \<open>stop\<close> values (fewer when
  the iterator is shorter) and the iterator left behind. itertools accepts only
  \<^verbatim>\<open>0 <= stop <= sys.maxsize\<close> and raises ValueError otherwise; \<^verbatim>\<open>sys.maxsize\<close> belongs to
  the interpreter, not to this repository, and is the parameter \<open>maxsize\<close>.
\<close>

definition islice :: "int \<Rightarrow> 'a list \<Rightarrow> int \<Rightarrow> error + ('a list \<times> 'a list)" where
  "islice maxsize it stop =
     (if stop < 0 \<or> maxsize < stop then Inl ValueError
      else Inr (take (nat stop) it, drop (nat stop) it))"

section \<open>The All strategy (rolling/logical.py)\<close>

record rolling_all =
  all_iterator :: "pyval list"
  all_i :: int
  all_obs :: int
  all_last_false :: int

text \<open>The \<^verbatim>\<open>for val in head\<close> loop of \<^verbatim>\<open>All._init_fixed\<close>, on the pair (_i, _last_false).\<close>

fun All_head_loop :: "pyval list \<Rightarrow> int \<Rightarrow> int \<Rightarrow> int \<times> int" where
  "All_head_loop [] i last_false = (i, last_false)"
| "All_head_loop (val # head) i last_false =
     All_head_loop head (i + 1) (if \<not> truthy val then i + 1 else last_false)"

definition All_init_fixed :: "int \<Rightarrow> pyval list \<Rightarrow> int \<Rightarrow> error + rolling_all" where
  "All_init_fixed maxsize iterable window_size =
     (case islice maxsize iterable (window_size - 1) of
        Inl e \<Rightarrow> Inl e
      | Inr (head, rest) \<Rightarrow>
          (case All_head_loop head 0 (- 1) of
             (i, last_false) \<Rightarrow>
               Inr \<lparr>all_iterator = rest, all_i = i, all_obs = window_size,
                    all_last_false = last_false\<rparr>))"

definition All_init_variable :: "pyval list \<Rightarrow> int \<Rightarrow> error + rolling_all" where
  "All_init_variable iterable window_size =
     Inr \<lparr>all_iterator = iterable, all_i = - 1, all_obs = 0,
          all_last_false = - window_size - 1\<rparr>"

definition All_add_new :: "rolling_all \<Rightarrow> rolling_all option" where
  "All_add_new s =
     (case next_val (all_iterator s) of
        None \<Rightarrow> None
      | Some (val, rest) \<Rightarrow>
          Some (let s1 = s\<lparr>all_iterator := rest, all_i := all_i s + 1, all_obs := all_obs s + 1\<rparr>
                in if \<not> truthy val then s1\<lparr>all_last_false := all_i s1\<rparr> else s1))"

definition All_update :: "rolling_all \<Rightarrow> rolling_all option" where
  "All_update s =
     (case next_val (all_iterator s) of
        None \<Rightarrow> None
      | Some (val, rest) \<Rightarrow>
          Some (let s1 = s\<lparr>all_iterator := rest, all_i := all_i s + 1\<rparr>
                in if \<not> truthy val then s1\<lparr>all_last_false := all_i s1\<rparr> else s1))"

definition All_remove_old :: "rolling_all \<Rightarrow> rolling_all" where
  "All_remove_old s = s\<lparr>all_obs := all_obs s - 1\<rparr>"

definition All_current_value :: "rolling_all \<Rightarrow> bool" where
  "All_current_value s = (all_i s - all_obs s \<ge> all_last_false s)"

section \<open>The Any strategy (rolling/logical.py)\<close>

record rolling_any =
  any_iterator :: "pyval list"
  any_i :: int
  any_obs :: int
  any_last_true :: int

fun Any_head_loop :: "pyval list \<Rightarrow> int \<Rightarrow> int \<Rightarrow> int \<times> int" where
  "Any_head_loop [] i last_true = (i, last_true)"
| "Any_head_loop (val # head) i last_true =
     Any_head_loop head (i + 1) (if truthy val then i + 1 else last_true)"

definition Any_init_fixed :: "int \<Rightarrow> pyval list \<Rightarrow> int \<Rightarrow> error + rolling_any" where
  "Any_init_fixed maxsize iterable window_size =
     (case islice maxsize iterable (window_size - 1) of
        Inl e \<Rightarrow> Inl e
      | Inr (head, rest) \<Rightarrow>
          (case Any_head_loop head 0 (- 1) of
             (i, last_true) \<Rightarrow>
               Inr \<lparr>any_iterator = rest, any_i = i, any_obs = window_size,
                    any_last_true = last_true\<rparr>))"

definition Any_init_variable :: "pyval list \<Rightarrow> int \<Rightarrow> error + rolling_any" where
  "Any_init_variable iterable window_size =
     Inr \<lparr>any_iterator = iterable, any_i = - 1, any_obs = 0,
          any_last_true = - window_size - 1\<rparr>"

definition Any_add_new :: "rolling_any \<Rightarrow> rolling_any option" where
  "Any_add_new s =
     (case next_val (any_iterator s) of
        None \<Rightarrow> None
      | Some (val, rest) \<Rightarrow>
          Some (let s1 = s\<lparr>any_iterator := rest, any_i := any_i s + 1, any_obs := any_obs s + 1\<rparr>
                in if truthy val then s1\<lparr>any_last_true := any_i s1\<rparr> else s1))"

definition Any_update :: "rolling_any \<Rightarrow> rolling_any option" where
  "Any_update s =
     (case next_val (any_iterator s) of
        None \<Rightarrow> None
      | Some (val, rest) \<Rightarrow>
          Some (let s1 = s\<lparr>any_iterator := rest, any_i := any_i s + 1\<rparr>
                in if truthy val then s1\<lparr>any_last_true := any_i s1\<rparr> else s1))"

definition Any_remove_old :: "rolling_any \<Rightarrow> rolling_any" where
  "Any_remove_old s = s\<lparr>any_obs := any_obs s - 1\<rparr>"

definition Any_current_value :: "rolling_any \<Rightarrow> bool" where
  "Any_current_value s = (any_i s - any_obs s < any_last_true s)"

text \<open>
  The left edge of the window, as the data model derives it from Position (\<^verbatim>\<open>_i\<close>) and
  ObservedCount (\<^verbatim>\<open>_obs\<close>).
\<close>

definition WindowStart :: "int \<Rightarrow> int \<Rightarrow> int" where
  "WindowStart position observed = position - observed + 1"

section \<open>The running-sum strategy\<close>

text \<open>
  Modelled from the spec: rolling/arithmetic.py (class Sum) is not among the sources; only
  its tests are. The state is the running total and the buffer of the raw values inside the
  window, oldest first: incorporate adds the value to the total, evict subtracts the value
  leaving the window, currentValue is the total. The hooks carry the names the window
  engine calls in logical.py; \<^verbatim>\<open>_update\<close> slides a full window (evict, then
  incorporate) and only incorporates while the window is still one short.
\<close>

record rolling_sum =
  sum_iterator :: "int list"
  sum_window_size :: int
  sum_obs :: int
  sum_total :: int
  sum_buffer :: "int list"

definition Sum_incorporate :: "int \<Rightarrow> rolling_sum \<Rightarrow> rolling_sum" where
  "Sum_incorporate val s = s\<lparr>sum_total := sum_total s + val, sum_buffer := sum_buffer s @ [val]\<rparr>"

definition Sum_evict :: "rolling_sum \<Rightarrow> rolling_sum" where
  "Sum_evict s =
     (case sum_buffer s of
        [] \<Rightarrow> s
      | leaving # kept \<Rightarrow> s\<lparr>sum_total := sum_total s - leaving, sum_buffer := kept\<rparr>)"

text \<open>
  Modelled from the spec: initFixed is given the window_size - 1 priming values (section
  4.2), fewer when the source is shorter; the spec names no failure of priming.
\<close>

definition priming_values :: "'a list \<Rightarrow> int \<Rightarrow> 'a list \<times> 'a list" where
  "priming_values source window_size =
     (take (nat (window_size - 1)) source, drop (nat (window_size - 1)) source)"

definition Sum_init_fixed :: "int list \<Rightarrow> int \<Rightarrow> error + rolling_sum" where
  "Sum_init_fixed iterable window_size =
     (case priming_values iterable window_size of
        (head, rest) \<Rightarrow>
          Inr (foldl (\<lambda>s val. Sum_incorporate val s)
                 \<lparr>sum_iterator = rest, sum_window_size = window_size, sum_obs = window_size,
                  sum_total = 0, sum_buffer = []\<rparr> head))"

definition Sum_init_variable :: "int list \<Rightarrow> int \<Rightarrow> error + rolling_sum" where
  "Sum_init_variable iterable window_size =
     Inr \<lparr>sum_iterator = iterable, sum_window_size = window_size, sum_obs = 0,
          sum_total = 0, sum_buffer = []\<rparr>"

definition Sum_add_new :: "rolling_sum \<Rightarrow> rolling_sum option" where
  "Sum_add_new s =
     (case next_val (sum_iterator s) of
        None \<Rightarrow> None
      | Some (val, rest) \<Rightarrow>
          Some (Sum_incorporate val (s\<lparr>sum_iterator := rest, sum_obs := sum_obs s + 1\<rparr>)))"

definition Sum_update :: "rolling_sum \<Rightarrow> rolling_sum option" where
  "Sum_update s =
     (case next_val (sum_iterator s) of
        None \<Rightarrow> None
      | Some (val, rest) \<Rightarrow>
          (let s1 = s\<lparr>sum_iterator := rest\<rparr>;
               s2 = (if int (length (sum_buffer s1)) \<ge> sum_window_size s1 then Sum_evict s1 else s1)
           in Some (Sum_incorporate val s2)))"

definition Sum_remove_old :: "rolling_sum \<Rightarrow> rolling_sum" where
  "Sum_remove_old s = Sum_evict (s\<lparr>sum_obs := sum_obs s - 1\<rparr>)"

definition Sum_current_value :: "rolling_sum \<Rightarrow> int" where
  "Sum_current_value s = sum_total s"

section \<open>The window engine\<close>

text \<open>
  Modelled from the spec: rolling/base.py (class RollingObject, the engine every strategy
  inherits from) is not among the sources. The strategy contract is the set of methods
  that All and Any override in logical.py: \<^verbatim>\<open>_init_fixed\<close>, \<^verbatim>\<open>_init_variable\<close>,
  \<^verbatim>\<open>_add_new\<close>, \<^verbatim>\<open>_update\<close>, \<^verbatim>\<open>_remove_old\<close>, the property \<^verbatim>\<open>current_value\<close> and the
  attribute \<^verbatim>\<open>_obs\<close>. A hook that pulls from the exhausted iterator raises StopIteration
  (\<open>None\<close>). All and Any take the interpreter's \<^verbatim>\<open>sys.maxsize\<close>, which their
  \<^verbatim>\<open>_init_fixed\<close> meets in \<^verbatim>\<open>islice\<close>.
\<close>

record ('a, 's, 'v) strategy =
  init_fixed :: "'a list \<Rightarrow> int \<Rightarrow> error + 's"
  init_variable :: "'a list \<Rightarrow> int \<Rightarrow> error + 's"
  add_new :: "'s \<Rightarrow> 's option"
  update :: "'s \<Rightarrow> 's option"
  remove_old :: "'s \<Rightarrow> 's"
  current_value :: "'s \<Rightarrow> 'v"
  obs :: "'s \<Rightarrow> int"
  iterator :: "'s \<Rightarrow> 'a list"

definition All_strategy :: "int \<Rightarrow> (pyval, rolling_all, bool) strategy" where
  "All_strategy maxsize =
     \<lparr>init_fixed = All_init_fixed maxsize, init_variable = All_init_variable, add_new = All_add_new,
      update = All_update, remove_old = All_remove_old, current_value = All_current_value,
      obs = all_obs, iterator = all_iterator\<rparr>"

definition Any_strategy :: "int \<Rightarrow> (pyval, rolling_any, bool) strategy" where
  "Any_strategy maxsize =
     \<lparr>init_fixed = Any_init_fixed maxsize, init_variable = Any_init_variable, add_new = Any_add_new,
      update = Any_update, remove_old = Any_remove_old, current_value = Any_current_value,
      obs = any_obs, iterator = any_iterator\<rparr>"

definition Sum_strategy :: "(int, rolling_sum, int) strategy" where
  "Sum_strategy =
     \<lparr>init_fixed = Sum_init_fixed, init_variable = Sum_init_variable, add_new = Sum_add_new,
      update = Sum_update, remove_old = Sum_remove_old, current_value = Sum_current_value,
      obs = sum_obs, iterator = sum_iterator\<rparr>"

datatype window_type = Fixed | Variable

record 's rolling_object =
  window_type :: window_type
  window_size :: int
  strategy_state :: 's

text \<open>
  Modelled from the spec: construction (section 4.1 and section 7). The window size must be
  a positive integer and the window-type token one of 'fixed' and 'variable'; anything else
  is a ConfigurationError, decided before the strategy's init hook touches the source. An
  error raised by the init hook itself passes through unchanged. The second component is
  the source as construction leaves it.
\<close>

definition parse_window_type :: "string \<Rightarrow> window_type option" where
  "parse_window_type token =
     (if token = ''fixed'' then Some Fixed
      else if token = ''variable'' then Some Variable
      else None)"

definition validate_window_size :: "pyval \<Rightarrow> int option" where
  "validate_window_size k = (case k of PyInt n \<Rightarrow> (if n > 0 then Some n else None) | _ \<Rightarrow> None)"

definition construct ::
  "('a, 's, 'v) strategy \<Rightarrow> 'a list \<Rightarrow> pyval \<Rightarrow> string \<Rightarrow> (error + 's rolling_object) \<times> 'a list" where
  "construct S source k token =
     (case parse_window_type token of
        None \<Rightarrow> (Inl ConfigurationError, source)
      | Some wt \<Rightarrow>
          (case validate_window_size k of
             None \<Rightarrow> (Inl ConfigurationError, source)
           | Some w \<Rightarrow>
               (case (case wt of Fixed \<Rightarrow> init_fixed S source w
                               | Variable \<Rightarrow> init_variable S source w) of
                  Inl e \<Rightarrow> (Inl e, source)
                | Inr s \<Rightarrow>
                    (Inr \<lparr>window_type = wt, window_size = w, strategy_state = s\<rparr>,
                     iterator S s))))"

text \<open>
  Modelled from the spec: stepping (section 4.1). Each function returns the strategy states
  at the moments an aggregate is yielded, in order; the output sequence reads
  \<^verbatim>\<open>current_value\<close> off each. Fixed mode slides with \<^verbatim>\<open>_update\<close> until the source is
  exhausted. Variable mode grows the window with \<^verbatim>\<open>_add_new\<close> until ObservedCount reaches
  the window size (ending there when the source runs out first), then slides like fixed
  mode, and once the source is exhausted shrinks the full window with \<^verbatim>\<open>_remove_old\<close>,
  one value and one output at a time, down to a single value: the outputs that
  tests/test_arithmetic.py lists after the last full window.
\<close>

partial_function (option) slide_fixed :: "('a, 's, 'v) strategy \<Rightarrow> 's \<Rightarrow> 's list option" where
  "slide_fixed S s =
     (case update S s of
        None \<Rightarrow> Some []
      | Some s' \<Rightarrow> Option.bind (slide_fixed S s') (\<lambda>later. Some (s' # later)))"

partial_function (option) shrink :: "('a, 's, 'v) strategy \<Rightarrow> 's \<Rightarrow> 's list option" where
  "shrink S s =
     (if obs S s \<le> 1 then Some []
      else Option.bind (shrink S (remove_old S s)) (\<lambda>later. Some (remove_old S s # later)))"

partial_function (option) slide_variable :: "('a, 's, 'v) strategy \<Rightarrow> 's \<Rightarrow> 's list option" where
  "slide_variable S s =
     (case update S s of
        None \<Rightarrow> shrink S s
      | Some s' \<Rightarrow> Option.bind (slide_variable S s') (\<lambda>later. Some (s' # later)))"

partial_function (option) grow :: "('a, 's, 'v) strategy \<Rightarrow> int \<Rightarrow> 's \<Rightarrow> 's list option" where
  "grow S w s =
     (if obs S s < w then
        (case add_new S s of
           None \<Rightarrow> Some []
         | Some s' \<Rightarrow> Option.bind (grow S w s') (\<lambda>later. Some (s' # later)))
      else slide_variable S s)"

declare slide_fixed.simps [code] shrink.simps [code] slide_variable.simps [code] grow.simps [code]

definition yields :: "('a, 's, 'v) strategy \<Rightarrow> 's rolling_object \<Rightarrow> 's list option" where
  "yields S r =
     (case window_type r of
        Fixed \<Rightarrow> slide_fixed S (strategy_state r)
      | Variable \<Rightarrow> grow S (window_size r) (strategy_state r))"

definition produce :: "('a, 's, 'v) strategy \<Rightarrow> 's rolling_object \<Rightarrow> 'v list option" where
  "produce S r = map_option (map (current_value S)) (yields S r)"

text \<open>
  \<^verbatim>\<open>list(Cls(source, k, window_type=token))\<close>: construction, then the whole output sequence.
  \<open>None\<close> would be a run that never ends.
\<close>

definition rolling :: "('a, 's, 'v) strategy \<Rightarrow> 'a list \<Rightarrow> pyval \<Rightarrow> string \<Rightarrow> (error + 'v list) option" where
  "rolling S source k token =
     (case fst (construct S source k token) of
        Inl e \<Rightarrow> Some (Inl e)
      | Inr r \<Rightarrow> map_option Inr (produce S r))"

text \<open>The number of aggregate values a whole run produces, when construction succeeds.\<close>

definition output_count ::
  "('a, 's, 'v) strategy \<Rightarrow> 'a list \<Rightarrow> pyval \<Rightarrow> string \<Rightarrow> nat option" where
  "output_count S source k token =
     (case rolling S source k token of
        Some (Inr outs) \<Rightarrow> Some (length outs)
      | _ \<Rightarrow> None)"

section \<open>Brute-force reference\<close>

text \<open>
  The values consumed so far, given the source and the iterator left; the last \<open>n\<close> of a
  list; and the aggregates recomputed by scanning them, as Python's \<^verbatim>\<open>all\<close> and \<^verbatim>\<open>any\<close>
  would.
\<close>

definition consumed :: "'a list \<Rightarrow> 'a list \<Rightarrow> 'a list" where
  "consumed source it = take (length source - length it) source"

definition last_values :: "int \<Rightarrow> 'a list \<Rightarrow> 'a list" where
  "last_values n c = drop (length c - nat n) c"

definition brute_all :: "int \<Rightarrow> pyval list \<Rightarrow> bool" where
  "brute_all n c = list_all truthy (last_values n c)"

definition brute_any :: "int \<Rightarrow> pyval list \<Rightarrow> bool" where
  "brute_any n c = list_ex truthy (last_values n c)"

definition py_not :: "pyval \<Rightarrow> pyval" where
  "py_not val = PyBool (\<not> truthy val)"

text \<open>
  \<open>tracks P c d\<close>: among the consumed values \<open>c\<close>, the most recent \<open>d\<close> satisfy \<open>P\<close> and
  the one before them (when there is one) does not.
\<close>

definition tracks :: "('a \<Rightarrow> bool) \<Rightarrow> 'a list \<Rightarrow> int \<Rightarrow> bool" where
  "tracks P c d = (0 \<le> d \<and> min (nat d) (length c) = length (takeWhile P (rev c)))"

text \<open>
  Invariants of a run over the source \<open>xs\<close>: the iterator is what is left of \<open>xs\<close>, and the
  distance from the position to the remembered one tracks the truthy (for All) or falsy
  (for Any) values consumed last. A yielded state is right when ObservedCount counts
  values that were really consumed and current_value agrees with the brute-force scan.
\<close>

definition all_inv :: "pyval list \<Rightarrow> rolling_all \<Rightarrow> bool" where
  "all_inv xs s =
     ((\<exists>c. xs = c @ all_iterator s) \<and>
      tracks truthy (consumed xs (all_iterator s)) (all_i s - all_last_false s))"

definition all_yield_ok :: "pyval list \<Rightarrow> rolling_all \<Rightarrow> bool" where
  "all_yield_ok xs s =
     (1 \<le> all_obs s \<and> nat (all_obs s) \<le> length (consumed xs (all_iterator s)) \<and>
      All_current_value s = brute_all (all_obs s) (consumed xs (all_iterator s)))"

definition any_inv :: "pyval list \<Rightarrow> rolling_any \<Rightarrow> bool" where
  "any_inv xs s =
     ((\<exists>c. xs = c @ any_iterator s) \<and>
      tracks (\<lambda>val. \<not> truthy val) (consumed xs (any_iterator s)) (any_i s - any_last_true s))"

definition any_yield_ok :: "pyval list \<Rightarrow> rolling_any \<Rightarrow> bool" where
  "any_yield_ok xs s =
     (1 \<le> any_obs s \<and> nat (any_obs s) \<le> length (consumed xs (any_iterator s)) \<and>
      Any_current_value s = brute_any (any_obs s) (consumed xs (any_iterator s)))"

text \<open>The Any state that mirrors an All state over the elementwise negated values.\<close>

definition dual :: "rolling_all \<Rightarrow> rolling_any" where
  "dual s =
     \<lparr>any_iterator = map py_not (all_iterator s), any_i = all_i s, any_obs = all_obs s,
      any_last_true = all_last_false s\<rparr>"

section \<open>Total-correctness rules for the engine's loops\<close>

lemma slide_fixed_rule:
  assumes stop: "\<And>s. I s \<Longrightarrow> iterator S s = [] \<Longrightarrow> update S s = None"
    and step: "\<And>s. I s \<Longrightarrow> iterator S s \<noteq> [] \<Longrightarrow>
                 \<exists>s'. update S s = Some s' \<and> iterator S s' = tl (iterator S s) \<and> I s' \<and> Q s'"
    and init: "I s"
  shows "\<exists>ys. slide_fixed S s = Some ys \<and> length ys = length (iterator S s) \<and> list_all Q ys"
  using init
proof (induction "length (iterator S s)" arbitrary: s)
  case 0
  then have "update S s = None" using stop by simp
  then have "slide_fixed S s = Some []" by (subst slide_fixed.simps) simp
  with 0 show ?case by simp
next
  case (Suc n)
  then have ne: "iterator S s \<noteq> []" by auto
  from step [OF Suc.prems ne] obtain s' where
    u: "update S s = Some s'" and it: "iterator S s' = tl (iterator S s)" and i': "I s'" and q: "Q s'"
    by blast
  from it Suc.hyps(2) have "n = length (iterator S s')" by simp
  from Suc.hyps(1) [OF this i'] obtain ys where
    ys: "slide_fixed S s' = Some ys" "length ys = length (iterator S s')" "list_all Q ys" by blast
  have "slide_fixed S s = Some (s' # ys)"
    by (subst slide_fixed.simps) (simp add: u ys)
  with ys q it ne show ?case by simp
qed

lemma shrink_rule:
  assumes step: "\<And>s. J s \<Longrightarrow> 1 < obs S s \<Longrightarrow>
                 obs S (remove_old S s) = obs S s - 1 \<and> J (remove_old S s) \<and> Q (remove_old S s)"
    and init: "J s"
  shows "\<exists>ys. shrink S s = Some ys \<and> length ys = nat (obs S s - 1) \<and> list_all Q ys"
  using init
proof (induction "nat (obs S s - 1)" arbitrary: s)
  case 0
  then have "obs S s \<le> 1" by simp
  then have "shrink S s = Some []" by (subst shrink.simps) simp
  with 0 show ?case by simp
next
  case (Suc n)
  then have gt: "1 < obs S s" by simp
  let ?s' = "remove_old S s"
  from step [OF Suc.prems gt] have
    o: "obs S ?s' = obs S s - 1" and j: "J ?s'" and q: "Q ?s'" by simp_all
  from o Suc.hyps(2) have "n = nat (obs S ?s' - 1)" by simp
  from Suc.hyps(1) [OF this j] obtain ys where
    ys: "shrink S ?s' = Some ys" "length ys = nat (obs S ?s' - 1)" "list_all Q ys" by blast
  have "shrink S s = Some (?s' # ys)"
    using gt by (subst shrink.simps) (simp add: ys)
  with ys q o gt show ?case by simp
qed

lemma slide_variable_rule:
  assumes stop: "\<And>s. I s \<Longrightarrow> iterator S s = [] \<Longrightarrow> update S s = None \<and> J s"
    and step: "\<And>s. I s \<Longrightarrow> iterator S s \<noteq> [] \<Longrightarrow>
                 \<exists>s'. update S s = Some s' \<and> iterator S s' = tl (iterator S s) \<and>
                      obs S s' = obs S s \<and> I s' \<and> Q s'"
    and drain: "\<And>s. J s \<Longrightarrow> 1 < obs S s \<Longrightarrow>
                 obs S (remove_old S s) = obs S s - 1 \<and> J (remove_old S s) \<and> Q (remove_old S s)"
    and init: "I s"
  shows "\<exists>ys. slide_variable S s = Some ys \<and>
              length ys = length (iterator S s) + nat (obs S s - 1) \<and> list_all Q ys"
  using init
proof (induction "length (iterator S s)" arbitrary: s)
  case 0
  then have e: "iterator S s = []" by simp
  from stop [OF "0.prems" e] have u: "update S s = None" and j: "J s" by simp_all
  have "slide_variable S s = shrink S s" by (subst slide_variable.simps) (simp add: u)
  with shrink_rule [of J S Q s, OF drain j] e show ?case by simp
next
  case (Suc n)
  then have ne: "iterator S s \<noteq> []" by auto
  from step [OF Suc.prems ne] obtain s' where
    u: "update S s = Some s'" and it: "iterator S s' = tl (iterator S s)"
    and o: "obs S s' = obs S s" and i': "I s'" and q: "Q s'"
    by blast
  from it Suc.hyps(2) have "n = length (iterator S s')" by simp
  from Suc.hyps(1) [OF this i'] obtain ys where
    ys: "slide_variable S s' = Some ys"
      "length ys = length (iterator S s') + nat (obs S s' - 1)" "list_all Q ys" by blast
  have "slide_variable S s = Some (s' # ys)"
    by (subst slide_variable.simps) (simp add: u ys)
  with ys q it o ne show ?case by simp
qed

lemma grow_rule:
  assumes add_stop: "\<And>s. G s \<Longrightarrow> obs S s < w \<Longrightarrow> iterator S s = [] \<Longrightarrow> add_new S s = None"
    and add_step: "\<And>s. G s \<Longrightarrow> obs S s < w \<Longrightarrow> iterator S s \<noteq> [] \<Longrightarrow>
                 \<exists>s'. add_new S s = Some s' \<and> iterator S s' = tl (iterator S s) \<and>
                      obs S s' = obs S s + 1 \<and> G s' \<and> Q s'"
    and full: "\<And>s. G s \<Longrightarrow> obs S s = w \<Longrightarrow> I s"
    and stop: "\<And>s. I s \<Longrightarrow> iterator S s = [] \<Longrightarrow> update S s = None \<and> J s"
    and step: "\<And>s. I s \<Longrightarrow> iterator S s \<noteq> [] \<Longrightarrow>
                 \<exists>s'. update S s = Some s' \<and> iterator S s' = tl (iterator S s) \<and>
                      obs S s' = obs S s \<and> I s' \<and> Q s'"
    and drain: "\<And>s. J s \<Longrightarrow> 1 < obs S s \<Longrightarrow>
                 obs S (remove_old S s) = obs S s - 1 \<and> J (remove_old S s) \<and> Q (remove_old S s)"
    and init: "G s" and le: "obs S s \<le> w"
  shows "\<exists>ys. grow S w s = Some ys \<and> list_all Q ys \<and>
              length ys = (if int (length (iterator S s)) < w - obs S s
                           then length (iterator S s)
                           else length (iterator S s) + nat (w - 1))"
  using init le
proof (induction "length (iterator S s)" arbitrary: s)
  case 0
  then have e: "iterator S s = []" by simp
  show ?case
  proof (cases "obs S s < w")
    case True
    from add_stop [OF "0.prems"(1) True e] have "grow S w s = Some []"
      using True by (subst grow.simps) simp
    with e True show ?thesis by simp
  next
    case False
    with "0.prems" have eq: "obs S s = w" by simp
    have g: "grow S w s = slide_variable S s" using False by (subst grow.simps) simp
    from slide_variable_rule [of I S J Q s, OF stop step drain full [OF "0.prems"(1) eq]]
    show ?thesis using g e eq by auto
  qed
next
  case (Suc n)
  then have ne: "iterator S s \<noteq> []" by auto
  show ?case
  proof (cases "obs S s < w")
    case True
    from add_step [OF Suc.prems(1) True ne] obtain s' where
      a: "add_new S s = Some s'" and it: "iterator S s' = tl (iterator S s)"
      and o: "obs S s' = obs S s + 1" and g': "G s'" and q: "Q s'"
      by blast
    from it Suc.hyps(2) have n: "n = length (iterator S s')" by simp
    from o True have le': "obs S s' \<le> w" by simp
    from Suc.hyps(1) [OF n g' le'] obtain ys where
      ys: "grow S w s' = Some ys" "list_all Q ys"
        "length ys = (if int (length (iterator S s')) < w - obs S s'
                           then length (iterator S s')
                           else length (iterator S s') + nat (w - 1))" by blast
    have "grow S w s = Some (s' # ys)"
      using True by (subst grow.simps) (simp add: a ys)
    moreover have "length (iterator S s) = Suc (length (iterator S s'))"
      using it ne by simp
    ultimately show ?thesis using ys q o by auto
  next
    case False
    with Suc.prems have eq: "obs S s = w" by simp
    have g: "grow S w s = slide_variable S s" using False by (subst grow.simps) simp
    from slide_variable_rule [of I S J Q s, OF stop step drain full [OF Suc.prems(1) eq]]
    show ?thesis using g eq by auto
  qed
qed

section \<open>Tracking the last falsy or truthy value\<close>

lemma consumed_append [simp]: "consumed (c @ it) it = c"
  by (simp add: consumed_def)

lemma list_all_take_takeWhile:
  "n \<le> length ys \<Longrightarrow> list_all P (take n ys) \<longleftrightarrow> n \<le> length (takeWhile P ys)"
proof (induction ys arbitrary: n)
  case Nil
  then show ?case by simp
next
  case (Cons y ys)
  then show ?case by (cases n) auto
qed

lemma list_all_last_values:
  assumes "0 \<le> n" "nat n \<le> length c"
  shows "list_all P (last_values n c) \<longleftrightarrow> nat n \<le> length (takeWhile P (rev c))"
proof -
  have "set (last_values n c) = set (take (nat n) (rev c))"
    using assms by (simp add: last_values_def take_rev)
  then have "list_all P (last_values n c) \<longleftrightarrow> list_all P (take (nat n) (rev c))"
    by (simp add: list_all_iff)
  also have "\<dots> \<longleftrightarrow> nat n \<le> length (takeWhile P (rev c))"
    using assms by (simp add: list_all_take_takeWhile)
  finally show ?thesis .
qed

lemma tracks_brute:
  assumes "tracks P c d" "0 \<le> n" "nat n \<le> length c"
  shows "list_all P (last_values n c) \<longleftrightarrow> n \<le> d"
proof -
  from assms(1) have d: "0 \<le> d" and m: "min (nat d) (length c) = length (takeWhile P (rev c))"
    by (simp_all add: tracks_def)
  have "list_all P (last_values n c) \<longleftrightarrow> nat n \<le> min (nat d) (length c)"
    using list_all_last_values [OF assms(2,3)] m by simp
  also have "\<dots> \<longleftrightarrow> n \<le> d" using assms(2,3) d by auto
  finally show ?thesis .
qed

lemma tracks_Nil: "0 \<le> d \<Longrightarrow> tracks P [] d"
  by (simp add: tracks_def)

lemma tracks_snoc_keep: "tracks P c d \<Longrightarrow> P v \<Longrightarrow> tracks P (c @ [v]) (d + 1)"
  by (auto simp: tracks_def nat_add_distrib min_def)

lemma tracks_snoc_reset: "\<not> P v \<Longrightarrow> tracks P (c @ [v]) 0"
  by (simp add: tracks_def)

lemma list_ex_not_all: "list_ex P xs \<longleftrightarrow> \<not> list_all (\<lambda>x. \<not> P x) xs"
  by (simp add: list_ex_iff list_all_iff)

section \<open>Construction\<close>

lemma parse_window_type_simps [simp]:
  "parse_window_type ''fixed'' = Some Fixed"
  "parse_window_type ''variable'' = Some Variable"
  by (simp_all add: parse_window_type_def)

lemma validate_window_size_PyInt [simp]:
  "validate_window_size (PyInt w) = (if 0 < w then Some w else None)"
  by (simp add: validate_window_size_def)

lemma next_val_simps [simp]:
  "next_val [] = None" "next_val (v # rest) = Some (v, rest)"
  by (simp_all add: next_val_def)

section \<open>All: the invariant through the hooks\<close>

lemma All_head_loop_tracks:
  "tracks truthy c (i - lf) \<Longrightarrow> All_head_loop head i lf = (i', lf') \<Longrightarrow>
   tracks truthy (c @ head) (i' - lf')"
proof (induction head arbitrary: c i lf)
  case Nil
  then show ?case by simp
next
  case (Cons v head)
  have "tracks truthy (c @ [v]) (i + 1 - (if \<not> truthy v then i + 1 else lf))"
  proof (cases "truthy v")
    case True
    with tracks_snoc_keep [OF Cons.prems(1), of v] show ?thesis by (simp add: algebra_simps)
  next
    case False
    with tracks_snoc_reset [of truthy v c] show ?thesis by simp
  qed
  from Cons.IH [OF this] Cons.prems(2) show ?case by simp
qed

lemma All_init_fixed_too_large:
  "maxsize < w - 1 \<Longrightarrow> All_init_fixed maxsize xs w = Inl ValueError"
  by (simp add: All_init_fixed_def islice_def)

lemma All_init_fixed_inv:
  assumes "1 \<le> w" "w - 1 \<le> maxsize"
  shows "\<exists>s. All_init_fixed maxsize xs w = Inr s \<and> all_iterator s = drop (nat (w - 1)) xs \<and>
             all_obs s = w \<and> all_inv xs s"
proof -
  obtain i lf where h: "All_head_loop (take (nat (w - 1)) xs) 0 (- 1) = (i, lf)"
    by (cases "All_head_loop (take (nat (w - 1)) xs) 0 (- 1)")
  have "tracks truthy [] (0 - (- 1))" by (simp add: tracks_Nil)
  from All_head_loop_tracks [OF this h]
  have t: "tracks truthy (take (nat (w - 1)) xs) (i - lf)" by simp
  let ?s = "\<lparr>all_iterator = drop (nat (w - 1)) xs, all_i = i, all_obs = w, all_last_false = lf\<rparr>"
  have "All_init_fixed maxsize xs w = Inr ?s"
    using assms h by (simp add: All_init_fixed_def islice_def)
  moreover have "all_inv xs ?s"
  proof -
    have x: "xs = take (nat (w - 1)) xs @ drop (nat (w - 1)) xs" by simp
    have "consumed xs (drop (nat (w - 1)) xs) = take (nat (w - 1)) xs"
      by (subst x) (simp only: consumed_append)
    with t x show ?thesis unfolding all_inv_def by (auto simp del: append_take_drop_id)
  qed
  ultimately show ?thesis by simp
qed

lemma All_init_variable_inv:
  assumes "1 \<le> w"
  shows "\<exists>s. All_init_variable xs w = Inr s \<and> all_iterator s = xs \<and> all_obs s = 0 \<and> all_inv xs s"
  using assms
  by (simp add: All_init_variable_def all_inv_def consumed_def tracks_Nil)

lemma All_update_None: "all_iterator s = [] \<Longrightarrow> All_update s = None"
  by (simp add: All_update_def)

lemma All_add_new_None: "all_iterator s = [] \<Longrightarrow> All_add_new s = None"
  by (simp add: All_add_new_def)

lemma all_inv_step:
  assumes inv: "all_inv xs s" and it: "all_iterator s = v # rest"
    and s': "all_iterator s' = rest" "all_i s' = all_i s + 1"
      "all_last_false s' = (if \<not> truthy v then all_i s + 1 else all_last_false s)"
  shows "all_inv xs s' \<and> consumed xs (all_iterator s') = consumed xs (all_iterator s) @ [v]"
proof -
  from inv obtain c where c: "xs = c @ all_iterator s" by (auto simp: all_inv_def)
  with inv have t: "tracks truthy c (all_i s - all_last_false s)" by (simp add: all_inv_def)
  from c it have c': "xs = (c @ [v]) @ all_iterator s'" using s'(1) by simp
  have "tracks truthy (c @ [v]) (all_i s' - all_last_false s')"
  proof (cases "truthy v")
    case True
    with tracks_snoc_keep [OF t, of v] s' show ?thesis by (simp add: algebra_simps)
  next
    case False
    with tracks_snoc_reset [of truthy v c] s' show ?thesis by simp
  qed
  moreover have "consumed xs (all_iterator s') = c @ [v]"
    by (subst c') (simp only: consumed_append)
  moreover have "consumed xs (all_iterator s) = c"
    by (subst c) (simp only: consumed_append)
  ultimately show ?thesis using c' unfolding all_inv_def by auto
qed

lemma All_update_step:
  assumes "all_inv xs s" "all_iterator s \<noteq> []"
  shows "\<exists>s'. All_update s = Some s' \<and> all_iterator s' = tl (all_iterator s) \<and>
              all_obs s' = all_obs s \<and> all_inv xs s' \<and>
              length (consumed xs (all_iterator s')) = Suc (length (consumed xs (all_iterator s)))"
proof -
  from assms(2) obtain v rest where it: "all_iterator s = v # rest" by (cases "all_iterator s") auto
  define s' where "s' = (let s1 = s\<lparr>all_iterator := rest, all_i := all_i s + 1\<rparr>
                in if \<not> truthy v then s1\<lparr>all_last_false := all_i s1\<rparr> else s1)"
  have u: "All_update s = Some s'" by (simp add: All_update_def it s'_def)
  have f: "all_iterator s' = rest" "all_i s' = all_i s + 1" "all_obs s' = all_obs s"
    "all_last_false s' = (if \<not> truthy v then all_i s + 1 else all_last_false s)"
    by (simp_all add: s'_def Let_def)
  from all_inv_step [OF assms(1) it f(1,2,4)] u f it show ?thesis by simp
qed

lemma All_add_new_step:
  assumes "all_inv xs s" "all_iterator s \<noteq> []"
  shows "\<exists>s'. All_add_new s = Some s' \<and> all_iterator s' = tl (all_iterator s) \<and>
              all_obs s' = all_obs s + 1 \<and> all_inv xs s' \<and>
              length (consumed xs (all_iterator s')) = Suc (length (consumed xs (all_iterator s)))"
proof -
  from assms(2) obtain v rest where it: "all_iterator s = v # rest" by (cases "all_iterator s") auto
  define s' where "s' = (let s1 = s\<lparr>all_iterator := rest, all_i := all_i s + 1, all_obs := all_obs s + 1\<rparr>
                in if \<not> truthy v then s1\<lparr>all_last_false := all_i s1\<rparr> else s1)"
  have u: "All_add_new s = Some s'" by (simp add: All_add_new_def it s'_def)
  have f: "all_iterator s' = rest" "all_i s' = all_i s + 1" "all_obs s' = all_obs s + 1"
    "all_last_false s' = (if \<not> truthy v then all_i s + 1 else all_last_false s)"
    by (simp_all add: s'_def Let_def)
  from all_inv_step [OF assms(1) it f(1,2,4)] u f it show ?thesis by simp
qed

lemma All_remove_old_inv: "all_inv xs s \<Longrightarrow> all_inv xs (All_remove_old s)"
  by (simp add: all_inv_def All_remove_old_def)

lemma all_yield_okI:
  assumes "all_inv xs s" "1 \<le> all_obs s" "nat (all_obs s) \<le> length (consumed xs (all_iterator s))"
  shows "all_yield_ok xs s"
proof -
  from assms(1) have "tracks truthy (consumed xs (all_iterator s)) (all_i s - all_last_false s)"
    by (simp add: all_inv_def)
  from tracks_brute [OF this, of "all_obs s"] assms(2,3)
  have "brute_all (all_obs s) (consumed xs (all_iterator s)) \<longleftrightarrow>
          all_obs s \<le> all_i s - all_last_false s"
    by (simp add: brute_all_def)
  then have "All_current_value s = brute_all (all_obs s) (consumed xs (all_iterator s))"
    by (auto simp: All_current_value_def)
  with assms(2,3) show ?thesis by (simp add: all_yield_ok_def)
qed

lemma All_strategy_simps [simp]:
  "init_fixed (All_strategy maxsize) = All_init_fixed maxsize" "init_variable (All_strategy maxsize) = All_init_variable"
  "add_new (All_strategy maxsize) = All_add_new" "update (All_strategy maxsize) = All_update"
  "remove_old (All_strategy maxsize) = All_remove_old" "current_value (All_strategy maxsize) = All_current_value"
  "obs (All_strategy maxsize) = all_obs" "iterator (All_strategy maxsize) = all_iterator"
  by (simp_all add: All_strategy_def)

section \<open>All: whole runs\<close>

lemma All_fixed_too_large:
  "1 \<le> w \<Longrightarrow> maxsize < w - 1 \<Longrightarrow>
   construct (All_strategy maxsize) xs (PyInt w) ''fixed'' = (Inl ValueError, xs)"
  by (simp add: construct_def All_init_fixed_too_large)

lemma All_fixed_run:
  assumes w: "1 \<le> w" and b: "w - 1 \<le> maxsize"
  shows "\<exists>r ys. construct (All_strategy maxsize) xs (PyInt w) ''fixed'' = (Inr r, drop (nat (w - 1)) xs) \<and>
           yields (All_strategy maxsize) r = Some ys \<and> length ys = length xs - nat (w - 1) \<and>
           list_all (all_yield_ok xs) ys"
proof -
  from All_init_fixed_inv [OF w b, of xs] obtain s where
    s: "All_init_fixed maxsize xs w = Inr s" "all_iterator s = drop (nat (w - 1)) xs" "all_obs s = w"
      "all_inv xs s" by blast
  let ?r = "\<lparr>window_type = Fixed, window_size = w, strategy_state = s\<rparr>"
  define I where "I = (\<lambda>s. all_inv xs s \<and> all_obs s = w \<and>
      (nat w \<le> Suc (length (consumed xs (all_iterator s))) \<or> all_iterator s = []))"
  have c: "construct (All_strategy maxsize) xs (PyInt w) ''fixed'' = (Inr ?r, drop (nat (w - 1)) xs)"
    using w s by (simp add: construct_def)
  have "length (consumed xs (all_iterator s)) = min (length xs) (nat (w - 1))"
    using s(2) by (simp add: consumed_def min_def)
  then have i0: "I s" using s w unfolding I_def by (auto simp: min_def)
  have stop: "\<And>s. I s \<Longrightarrow> iterator (All_strategy maxsize) s = [] \<Longrightarrow> update (All_strategy maxsize) s = None"
    by (simp add: All_update_None)
  have step: "\<And>s. I s \<Longrightarrow> iterator (All_strategy maxsize) s \<noteq> [] \<Longrightarrow>
                 \<exists>s'. update (All_strategy maxsize) s = Some s' \<and>
                      iterator (All_strategy maxsize) s' = tl (iterator (All_strategy maxsize) s) \<and> I s' \<and>
                      all_yield_ok xs s'"
  proof -
    fix t assume t: "I t" "iterator (All_strategy maxsize) t \<noteq> []"
    then have inv: "all_inv xs t" and ne: "all_iterator t \<noteq> []" by (simp_all add: I_def)
    from All_update_step [OF inv ne] obtain t' where
      t': "All_update t = Some t'" "all_iterator t' = tl (all_iterator t)"
        "all_obs t' = all_obs t" "all_inv xs t'"
        "length (consumed xs (all_iterator t')) = Suc (length (consumed xs (all_iterator t)))"
      by blast
    from t ne have le: "nat w \<le> Suc (length (consumed xs (all_iterator t)))" by (simp add: I_def)
    have o: "all_obs t' = w" using t t'(3) by (simp add: I_def)
    have "all_yield_ok xs t'"
      using t'(4) o w le t'(5) by (intro all_yield_okI) simp_all
    moreover have "I t'" using t' o le by (simp add: I_def)
    ultimately show "\<exists>s'. update (All_strategy maxsize) t = Some s' \<and>
                      iterator (All_strategy maxsize) s' = tl (iterator (All_strategy maxsize) t) \<and> I s' \<and>
                      all_yield_ok xs s'"
      using t' by simp
  qed
  from slide_fixed_rule [of I "All_strategy maxsize" "all_yield_ok xs" s, OF stop step i0]
  obtain ys where ys: "slide_fixed (All_strategy maxsize) s = Some ys"
    "length ys = length (all_iterator s)" "list_all (all_yield_ok xs) ys" by auto
  have "yields (All_strategy maxsize) ?r = Some ys" using ys(1) by (simp add: yields_def)
  with c ys s(2) show ?thesis by auto
qed

lemma All_variable_run:
  assumes w: "1 \<le> w"
  shows "\<exists>r ys. construct (All_strategy maxsize) xs (PyInt w) ''variable'' = (Inr r, xs) \<and>
           yields (All_strategy maxsize) r = Some ys \<and>
           length ys = (if int (length xs) < w then length xs else length xs + nat (w - 1)) \<and>
           list_all (all_yield_ok xs) ys"
proof -
  from All_init_variable_inv [OF w, of xs] obtain s where
    s: "All_init_variable xs w = Inr s" "all_iterator s = xs" "all_obs s = 0"
      "all_inv xs s" by blast
  let ?r = "\<lparr>window_type = Variable, window_size = w, strategy_state = s\<rparr>"
  define I where "I = (\<lambda>s. all_inv xs s \<and> 0 \<le> all_obs s \<and>
      nat (all_obs s) \<le> length (consumed xs (all_iterator s)))"
  have c: "construct (All_strategy maxsize) xs (PyInt w) ''variable'' = (Inr ?r, xs)"
    using w s by (simp add: construct_def)
  have i0: "I s" using s unfolding I_def by simp
  have add_stop: "\<And>s. I s \<Longrightarrow> obs (All_strategy maxsize) s < w \<Longrightarrow> iterator (All_strategy maxsize) s = [] \<Longrightarrow>
      add_new (All_strategy maxsize) s = None"
    by (simp add: All_add_new_None)
  have add_step: "\<And>s. I s \<Longrightarrow> obs (All_strategy maxsize) s < w \<Longrightarrow> iterator (All_strategy maxsize) s \<noteq> [] \<Longrightarrow>
                 \<exists>s'. add_new (All_strategy maxsize) s = Some s' \<and>
                      iterator (All_strategy maxsize) s' = tl (iterator (All_strategy maxsize) s) \<and>
                      obs (All_strategy maxsize) s' = obs (All_strategy maxsize) s + 1 \<and> I s' \<and> all_yield_ok xs s'"
  proof -
    fix t assume t: "I t" "iterator (All_strategy maxsize) t \<noteq> []"
    then have inv: "all_inv xs t" and ne: "all_iterator t \<noteq> []" by (simp_all add: I_def)
    from All_add_new_step [OF inv ne] obtain t' where
      t': "All_add_new t = Some t'" "all_iterator t' = tl (all_iterator t)"
        "all_obs t' = all_obs t + 1" "all_inv xs t'"
        "length (consumed xs (all_iterator t')) = Suc (length (consumed xs (all_iterator t)))"
      by blast
    from t have b: "0 \<le> all_obs t" "nat (all_obs t) \<le> length (consumed xs (all_iterator t))"
      by (simp_all add: I_def)
    have i': "I t'" using t' b by (simp add: I_def nat_add_distrib)
    then have "all_yield_ok xs t'"
      using t'(3) b(1) by (intro all_yield_okI) (simp_all add: I_def)
    with i' t' show "\<exists>s'. add_new (All_strategy maxsize) t = Some s' \<and>
                      iterator (All_strategy maxsize) s' = tl (iterator (All_strategy maxsize) t) \<and>
                      obs (All_strategy maxsize) s' = obs (All_strategy maxsize) t + 1 \<and> I s' \<and> all_yield_ok xs s'"
      by simp
  qed
  define I1 where "I1 = (\<lambda>s. I s \<and> 1 \<le> all_obs s)"
  have full: "\<And>s. I s \<Longrightarrow> obs (All_strategy maxsize) s = w \<Longrightarrow> I1 s"
    using w by (simp add: I1_def)
  have stop: "\<And>s. I1 s \<Longrightarrow> iterator (All_strategy maxsize) s = [] \<Longrightarrow> update (All_strategy maxsize) s = None \<and> I1 s"
    by (simp add: All_update_None)
  have step: "\<And>s. I1 s \<Longrightarrow> iterator (All_strategy maxsize) s \<noteq> [] \<Longrightarrow>
                 \<exists>s'. update (All_strategy maxsize) s = Some s' \<and>
                      iterator (All_strategy maxsize) s' = tl (iterator (All_strategy maxsize) s) \<and>
                      obs (All_strategy maxsize) s' = obs (All_strategy maxsize) s \<and> I1 s' \<and> all_yield_ok xs s'"
  proof -
    fix t assume t: "I1 t" "iterator (All_strategy maxsize) t \<noteq> []"
    then have inv: "all_inv xs t" and ne: "all_iterator t \<noteq> []" by (simp_all add: I_def I1_def)
    from All_update_step [OF inv ne] obtain t' where
      t': "All_update t = Some t'" "all_iterator t' = tl (all_iterator t)"
        "all_obs t' = all_obs t" "all_inv xs t'"
        "length (consumed xs (all_iterator t')) = Suc (length (consumed xs (all_iterator t)))"
      by blast
    from t have b: "1 \<le> all_obs t" "nat (all_obs t) \<le> length (consumed xs (all_iterator t))"
      by (simp_all add: I_def I1_def)
    have i': "I1 t'" using t' b by (simp add: I_def I1_def)
    then have "all_yield_ok xs t'"
      by (intro all_yield_okI) (simp_all add: I_def I1_def)
    with i' t' show "\<exists>s'. update (All_strategy maxsize) t = Some s' \<and>
                      iterator (All_strategy maxsize) s' = tl (iterator (All_strategy maxsize) t) \<and>
                      obs (All_strategy maxsize) s' = obs (All_strategy maxsize) t \<and> I1 s' \<and> all_yield_ok xs s'"
      by simp
  qed
  have drain: "\<And>s. I1 s \<Longrightarrow> 1 < obs (All_strategy maxsize) s \<Longrightarrow>
                 obs (All_strategy maxsize) (remove_old (All_strategy maxsize) s) = obs (All_strategy maxsize) s - 1 \<and>
                 I1 (remove_old (All_strategy maxsize) s) \<and> all_yield_ok xs (remove_old (All_strategy maxsize) s)"
  proof -
    fix t assume t: "I1 t" "1 < obs (All_strategy maxsize) t"
    have f: "all_obs (All_remove_old t) = all_obs t - 1"
      "all_iterator (All_remove_old t) = all_iterator t"
      by (simp_all add: All_remove_old_def)
    have i': "I1 (All_remove_old t)"
      using t f All_remove_old_inv [of xs t] by (auto simp: I_def I1_def)
    then have "all_yield_ok xs (All_remove_old t)"
      by (intro all_yield_okI) (simp_all add: I_def I1_def)
    with i' f show "obs (All_strategy maxsize) (remove_old (All_strategy maxsize) t) = obs (All_strategy maxsize) t - 1 \<and>
                 I1 (remove_old (All_strategy maxsize) t) \<and> all_yield_ok xs (remove_old (All_strategy maxsize) t)"
      by simp
  qed
  have le: "obs (All_strategy maxsize) s \<le> w" using s w by simp
  from grow_rule [of I "All_strategy maxsize" w "all_yield_ok xs" I1 I1 s,
      OF add_stop add_step full stop step drain i0 le]
  obtain ys where ys: "grow (All_strategy maxsize) w s = Some ys" "list_all (all_yield_ok xs) ys"
    "length ys = (if int (length (all_iterator s)) < w - all_obs s
                           then length (all_iterator s)
                           else length (all_iterator s) + nat (w - 1))" by auto
  have "yields (All_strategy maxsize) ?r = Some ys" using ys(1) by (simp add: yields_def)
  with c ys s show ?thesis by auto
qed

section \<open>Any: the invariant through the hooks\<close>

lemma Any_head_loop_tracks:
  "tracks (\<lambda>val. \<not> truthy val) c (i - lt) \<Longrightarrow> Any_head_loop head i lt = (i', lt') \<Longrightarrow>
   tracks (\<lambda>val. \<not> truthy val) (c @ head) (i' - lt')"
proof (induction head arbitrary: c i lt)
  case Nil
  then show ?case by simp
next
  case (Cons v head)
  have "tracks (\<lambda>val. \<not> truthy val) (c @ [v]) (i + 1 - (if truthy v then i + 1 else lt))"
  proof (cases "truthy v")
    case False
    with tracks_snoc_keep [OF Cons.prems(1), of v] show ?thesis by (simp add: algebra_simps)
  next
    case True
    with tracks_snoc_reset [of "\<lambda>val. \<not> truthy val" v c] show ?thesis by simp
  qed
  from Cons.IH [OF this] Cons.prems(2) show ?case by simp
qed

lemma Any_init_fixed_too_large:
  "maxsize < w - 1 \<Longrightarrow> Any_init_fixed maxsize xs w = Inl ValueError"
  by (simp add: Any_init_fixed_def islice_def)

lemma Any_init_fixed_inv:
  assumes "1 \<le> w" "w - 1 \<le> maxsize"
  shows "\<exists>s. Any_init_fixed maxsize xs w = Inr s \<and> any_iterator s = drop (nat (w - 1)) xs \<and>
             any_obs s = w \<and> any_inv xs s"
proof -
  obtain i lt where h: "Any_head_loop (take (nat (w - 1)) xs) 0 (- 1) = (i, lt)"
    by (cases "Any_head_loop (take (nat (w - 1)) xs) 0 (- 1)")
  have "tracks (\<lambda>val. \<not> truthy val) [] (0 - (- 1))" by (simp add: tracks_Nil)
  from Any_head_loop_tracks [OF this h]
  have t: "tracks (\<lambda>val. \<not> truthy val) (take (nat (w - 1)) xs) (i - lt)" by simp
  let ?s = "\<lparr>any_iterator = drop (nat (w - 1)) xs, any_i = i, any_obs = w, any_last_true = lt\<rparr>"
  have "Any_init_fixed maxsize xs w = Inr ?s"
    using assms h by (simp add: Any_init_fixed_def islice_def)
  moreover have "any_inv xs ?s"
  proof -
    have x: "xs = take (nat (w - 1)) xs @ drop (nat (w - 1)) xs" by simp
    have "consumed xs (drop (nat (w - 1)) xs) = take (nat (w - 1)) xs"
      by (subst x) (simp only: consumed_append)
    with t x show ?thesis unfolding any_inv_def by (auto simp del: append_take_drop_id)
  qed
  ultimately show ?thesis by simp
qed

lemma Any_init_variable_inv:
  assumes "1 \<le> w"
  shows "\<exists>s. Any_init_variable xs w = Inr s \<and> any_iterator s = xs \<and> any_obs s = 0 \<and> any_inv xs s"
  using assms
  by (simp add: Any_init_variable_def any_inv_def consumed_def tracks_Nil)

lemma Any_update_None: "any_iterator s = [] \<Longrightarrow> Any_update s = None"
  by (simp add: Any_update_def)

lemma Any_add_new_None: "any_iterator s = [] \<Longrightarrow> Any_add_new s = None"
  by (simp add: Any_add_new_def)

lemma any_inv_step:
  assumes inv: "any_inv xs s" and it: "any_iterator s = v # rest"
    and s': "any_iterator s' = rest" "any_i s' = any_i s + 1"
      "any_last_true s' = (if truthy v then any_i s + 1 else any_last_true s)"
  shows "any_inv xs s' \<and> consumed xs (any_iterator s') = consumed xs (any_iterator s) @ [v]"
proof -
  from inv obtain c where c: "xs = c @ any_iterator s" by (auto simp: any_inv_def)
  with inv have t: "tracks (\<lambda>val. \<not> truthy val) c (any_i s - any_last_true s)" by (simp add: any_inv_def)
  from c it have c': "xs = (c @ [v]) @ any_iterator s'" using s'(1) by simp
  have "tracks (\<lambda>val. \<not> truthy val) (c @ [v]) (any_i s' - any_last_true s')"
  proof (cases "truthy v")
    case False
    with tracks_snoc_keep [OF t, of v] s' show ?thesis by (simp add: algebra_simps)
  next
    case True
    with tracks_snoc_reset [of "\<lambda>val. \<not> truthy val" v c] s' show ?thesis by simp
  qed
  moreover have "consumed xs (any_iterator s') = c @ [v]"
    by (subst c') (simp only: consumed_append)
  moreover have "consumed xs (any_iterator s) = c"
    by (subst c) (simp only: consumed_append)
  ultimately show ?thesis using c' unfolding any_inv_def by auto
qed

lemma Any_update_step:
  assumes "any_inv xs s" "any_iterator s \<noteq> []"
  shows "\<exists>s'. Any_update s = Some s' \<and> any_iterator s' = tl (any_iterator s) \<and>
              any_obs s' = any_obs s \<and> any_inv xs s' \<and>
              length (consumed xs (any_iterator s')) = Suc (length (consumed xs (any_iterator s)))"
proof -
  from assms(2) obtain v rest where it: "any_iterator s = v # rest" by (cases "any_iterator s") auto
  define s' where "s' = (let s1 = s\<lparr>any_iterator := rest, any_i := any_i s + 1\<rparr>
                in if truthy v then s1\<lparr>any_last_true := any_i s1\<rparr> else s1)"
  have u: "Any_update s = Some s'" by (simp add: Any_update_def it s'_def)
  have f: "any_iterator s' = rest" "any_i s' = any_i s + 1" "any_obs s' = any_obs s"
    "any_last_true s' = (if truthy v then any_i s + 1 else any_last_true s)"
    by (simp_all add: s'_def Let_def)
  from any_inv_step [OF assms(1) it f(1,2,4)] u f it show ?thesis by simp
qed

lemma Any_add_new_step:
  assumes "any_inv xs s" "any_iterator s \<noteq> []"
  shows "\<exists>s'. Any_add_new s = Some s' \<and> any_iterator s' = tl (any_iterator s) \<and>
              any_obs s' = any_obs s + 1 \<and> any_inv xs s' \<and>
              length (consumed xs (any_iterator s')) = Suc (length (consumed xs (any_iterator s)))"
proof -
  from assms(2) obtain v rest where it: "any_iterator s = v # rest" by (cases "any_iterator s") auto
  define s' where "s' = (let s1 = s\<lparr>any_iterator := rest, any_i := any_i s + 1, any_obs := any_obs s + 1\<rparr>
                in if truthy v then s1\<lparr>any_last_true := any_i s1\<rparr> else s1)"
  have u: "Any_add_new s = Some s'" by (simp add: Any_add_new_def it s'_def)
  have f: "any_iterator s' = rest" "any_i s' = any_i s + 1" "any_obs s' = any_obs s + 1"
    "any_last_true s' = (if truthy v then any_i s + 1 else any_last_true s)"
    by (simp_all add: s'_def Let_def)
  from any_inv_step [OF assms(1) it f(1,2,4)] u f it show ?thesis by simp
qed

lemma Any_remove_old_inv: "any_inv xs s \<Longrightarrow> any_inv xs (Any_remove_old s)"
  by (simp add: any_inv_def Any_remove_old_def)

lemma any_yield_okI:
  assumes "any_inv xs s" "1 \<le> any_obs s" "nat (any_obs s) \<le> length (consumed xs (any_iterator s))"
  shows "any_yield_ok xs s"
proof -
  from assms(1) have "tracks (\<lambda>val. \<not> truthy val) (consumed xs (any_iterator s)) (any_i s - any_last_true s)"
    by (simp add: any_inv_def)
  from tracks_brute [OF this, of "any_obs s"] assms(2,3)
  have "brute_any (any_obs s) (consumed xs (any_iterator s)) \<longleftrightarrow>
          \<not> any_obs s \<le> any_i s - any_last_true s"
    by (simp add: brute_any_def list_ex_not_all)
  then have "Any_current_value s = brute_any (any_obs s) (consumed xs (any_iterator s))"
    by (auto simp: Any_current_value_def)
  with assms(2,3) show ?thesis by (simp add: any_yield_ok_def)
qed

lemma Any_strategy_simps [simp]:
  "init_fixed (Any_strategy maxsize) = Any_init_fixed maxsize" "init_variable (Any_strategy maxsize) = Any_init_variable"
  "add_new (Any_strategy maxsize) = Any_add_new" "update (Any_strategy maxsize) = Any_update"
  "remove_old (Any_strategy maxsize) = Any_remove_old" "current_value (Any_strategy maxsize) = Any_current_value"
  "obs (Any_strategy maxsize) = any_obs" "iterator (Any_strategy maxsize) = any_iterator"
  by (simp_all add: Any_strategy_def)

section \<open>Any: whole runs\<close>

lemma Any_fixed_too_large:
  "1 \<le> w \<Longrightarrow> maxsize < w - 1 \<Longrightarrow>
   construct (Any_strategy maxsize) xs (PyInt w) ''fixed'' = (Inl ValueError, xs)"
  by (simp add: construct_def Any_init_fixed_too_large)

lemma Any_fixed_run:
  assumes w: "1 \<le> w" and b: "w - 1 \<le> maxsize"
  shows "\<exists>r ys. construct (Any_strategy maxsize) xs (PyInt w) ''fixed'' = (Inr r, drop (nat (w - 1)) xs) \<and>
           yields (Any_strategy maxsize) r = Some ys \<and> length ys = length xs - nat (w - 1) \<and>
           list_all (any_yield_ok xs) ys"
proof -
  from Any_init_fixed_inv [OF w b, of xs] obtain s where
    s: "Any_init_fixed maxsize xs w = Inr s" "any_iterator s = drop (nat (w - 1)) xs" "any_obs s = w"
      "any_inv xs s" by blast
  let ?r = "\<lparr>window_type = Fixed, window_size = w, strategy_state = s\<rparr>"
  define I where "I = (\<lambda>s. any_inv xs s \<and> any_obs s = w \<and>
      (nat w \<le> Suc (length (consumed xs (any_iterator s))) \<or> any_iterator s = []))"
  have c: "construct (Any_strategy maxsize) xs (PyInt w) ''fixed'' = (Inr ?r, drop (nat (w - 1)) xs)"
    using w s by (simp add: construct_def)
  have "length (consumed xs (any_iterator s)) = min (length xs) (nat (w - 1))"
    using s(2) by (simp add: consumed_def min_def)
  then have i0: "I s" using s w unfolding I_def by (auto simp: min_def)
  have stop: "\<And>s. I s \<Longrightarrow> iterator (Any_strategy maxsize) s = [] \<Longrightarrow> update (Any_strategy maxsize) s = None"
    by (simp add: Any_update_None)
  have step: "\<And>s. I s \<Longrightarrow> iterator (Any_strategy maxsize) s \<noteq> [] \<Longrightarrow>
                 \<exists>s'. update (Any_strategy maxsize) s = Some s' \<and>
                      iterator (Any_strategy maxsize) s' = tl (iterator (Any_strategy maxsize) s) \<and> I s' \<and>
                      any_yield_ok xs s'"
  proof -
    fix t assume t: "I t" "iterator (Any_strategy maxsize) t \<noteq> []"
    then have inv: "any_inv xs t" and ne: "any_iterator t \<noteq> []" by (simp_all add: I_def)
    from Any_update_step [OF inv ne] obtain t' where
      t': "Any_update t = Some t'" "any_iterator t' = tl (any_iterator t)"
        "any_obs t' = any_obs t" "any_inv xs t'"
        "length (consumed xs (any_iterator t')) = Suc (length (consumed xs (any_iterator t)))"
      by blast
    from t ne have le: "nat w \<le> Suc (length (consumed xs (any_iterator t)))" by (simp add: I_def)
    have o: "any_obs t' = w" using t t'(3) by (simp add: I_def)
    have "any_yield_ok xs t'"
      using t'(4) o w le t'(5) by (intro any_yield_okI) simp_all
    moreover have "I t'" using t' o le by (simp add: I_def)
    ultimately show "\<exists>s'. update (Any_strategy maxsize) t = Some s' \<and>
                      iterator (Any_strategy maxsize) s' = tl (iterator (Any_strategy maxsize) t) \<and> I s' \<and>
                      any_yield_ok xs s'"
      using t' by simp
  qed
  from slide_fixed_rule [of I "Any_strategy maxsize" "any_yield_ok xs" s, OF stop step i0]
  obtain ys where ys: "slide_fixed (Any_strategy maxsize) s = Some ys"
    "length ys = length (any_iterator s)" "list_all (any_yield_ok xs) ys" by auto
  have "yields (Any_strategy maxsize) ?r = Some ys" using ys(1) by (simp add: yields_def)
  with c ys s(2) show ?thesis by auto
qed

lemma Any_variable_run:
  assumes w: "1 \<le> w"
  shows "\<exists>r ys. construct (Any_strategy maxsize) xs (PyInt w) ''variable'' = (Inr r, xs) \<and>
           yields (Any_strategy maxsize) r = Some ys \<and>
           length ys = (if int (length xs) < w then length xs else length xs + nat (w - 1)) \<and>
           list_all (any_yield_ok xs) ys"
proof -
  from Any_init_variable_inv [OF w, of xs] obtain s where
    s: "Any_init_variable xs w = Inr s" "any_iterator s = xs" "any_obs s = 0"
      "any_inv xs s" by blast
  let ?r = "\<lparr>window_type = Variable, window_size = w, strategy_state = s\<rparr>"
  define I where "I = (\<lambda>s. any_inv xs s \<and> 0 \<le> any_obs s \<and>
      nat (any_obs s) \<le> length (consumed xs (any_iterator s)))"
  have c: "construct (Any_strategy maxsize) xs (PyInt w) ''variable'' = (Inr ?r, xs)"
    using w s by (simp add: construct_def)
  have i0: "I s" using s unfolding I_def by simp
  have add_stop: "\<And>s. I s \<Longrightarrow> obs (Any_strategy maxsize) s < w \<Longrightarrow> iterator (Any_strategy maxsize) s = [] \<Longrightarrow>
      add_new (Any_strategy maxsize) s = None"
    by (simp add: Any_add_new_None)
  have add_step: "\<And>s. I s \<Longrightarrow> obs (Any_strategy maxsize) s < w \<Longrightarrow> iterator (Any_strategy maxsize) s \<noteq> [] \<Longrightarrow>
                 \<exists>s'. add_new (Any_strategy maxsize) s = Some s' \<and>
                      iterator (Any_strategy maxsize) s' = tl (iterator (Any_strategy maxsize) s) \<and>
                      obs (Any_strategy maxsize) s' = obs (Any_strategy maxsize) s + 1 \<and> I s' \<and> any_yield_ok xs s'"
  proof -
    fix t assume t: "I t" "iterator (Any_strategy maxsize) t \<noteq> []"
    then have inv: "any_inv xs t" and ne: "any_iterator t \<noteq> []" by (simp_all add: I_def)
    from Any_add_new_step [OF inv ne] obtain t' where
      t': "Any_add_new t = Some t'" "any_iterator t' = tl (any_iterator t)"
        "any_obs t' = any_obs t + 1" "any_inv xs t'"
        "length (consumed xs (any_iterator t')) = Suc (length (consumed xs (any_iterator t)))"
      by blast
    from t have b: "0 \<le> any_obs t" "nat (any_obs t) \<le> length (consumed xs (any_iterator t))"
      by (simp_all add: I_def)
    have i': "I t'" using t' b by (simp add: I_def nat_add_distrib)
    then have "any_yield_ok xs t'"
      using t'(3) b(1) by (intro any_yield_okI) (simp_all add: I_def)
    with i' t' show "\<exists>s'. add_new (Any_strategy maxsize) t = Some s' \<and>
                      iterator (Any_strategy maxsize) s' = tl (iterator (Any_strategy maxsize) t) \<and>
                      obs (Any_strategy maxsize) s' = obs (Any_strategy maxsize) t + 1 \<and> I s' \<and> any_yield_ok xs s'"
      by simp
  qed
  define I1 where "I1 = (\<lambda>s. I s \<and> 1 \<le> any_obs s)"
  have full: "\<And>s. I s \<Longrightarrow> obs (Any_strategy maxsize) s = w \<Longrightarrow> I1 s"
    using w by (simp add: I1_def)
  have stop: "\<And>s. I1 s \<Longrightarrow> iterator (Any_strategy maxsize) s = [] \<Longrightarrow> update (Any_strategy maxsize) s = None \<and> I1 s"
    by (simp add: Any_update_None)
  have step: "\<And>s. I1 s \<Longrightarrow> iterator (Any_strategy maxsize) s \<noteq> [] \<Longrightarrow>
                 \<exists>s'. update (Any_strategy maxsize) s = Some s' \<and>
                      iterator (Any_strategy maxsize) s' = tl (iterator (Any_strategy maxsize) s) \<and>
                      obs (Any_strategy maxsize) s' = obs (Any_strategy maxsize) s \<and> I1 s' \<and> any_yield_ok xs s'"
  proof -
    fix t assume t: "I1 t" "iterator (Any_strategy maxsize) t \<noteq> []"
    then have inv: "any_inv xs t" and ne: "any_iterator t \<noteq> []" by (simp_all add: I_def I1_def)
    from Any_update_step [OF inv ne] obtain t' where
      t': "Any_update t = Some t'" "any_iterator t' = tl (any_iterator t)"
        "any_obs t' = any_obs t" "any_inv xs t'"
        "length (consumed xs (any_iterator t')) = Suc (length (consumed xs (any_iterator t)))"
      by blast
    from t have b: "1 \<le> any_obs t" "nat (any_obs t) \<le> length (consumed xs (any_iterator t))"
      by (simp_all add: I_def I1_def)
    have i': "I1 t'" using t' b by (simp add: I_def I1_def)
    then have "any_yield_ok xs t'"
      by (intro any_yield_okI) (simp_all add: I_def I1_def)
    with i' t' show "\<exists>s'. update (Any_strategy maxsize) t = Some s' \<and>
                      iterator (Any_strategy maxsize) s' = tl (iterator (Any_strategy maxsize) t) \<and>
                      obs (Any_strategy maxsize) s' = obs (Any_strategy maxsize) t \<and> I1 s' \<and> any_yield_ok xs s'"
      by simp
  qed
  have drain: "\<And>s. I1 s \<Longrightarrow> 1 < obs (Any_strategy maxsize) s \<Longrightarrow>
                 obs (Any_strategy maxsize) (remove_old (Any_strategy maxsize) s) = obs (Any_strategy maxsize) s - 1 \<and>
                 I1 (remove_old (Any_strategy maxsize) s) \<and> any_yield_ok xs (remove_old (Any_strategy maxsize) s)"
  proof -
    fix t assume t: "I1 t" "1 < obs (Any_strategy maxsize) t"
    have f: "any_obs (Any_remove_old t) = any_obs t - 1"
      "any_iterator (Any_remove_old t) = any_iterator t"
      by (simp_all add: Any_remove_old_def)
    have i': "I1 (Any_remove_old t)"
      using t f Any_remove_old_inv [of xs t] by (auto simp: I_def I1_def)
    then have "any_yield_ok xs (Any_remove_old t)"
      by (intro any_yield_okI) (simp_all add: I_def I1_def)
    with i' f show "obs (Any_strategy maxsize) (remove_old (Any_strategy maxsize) t) = obs (Any_strategy maxsize) t - 1 \<and>
                 I1 (remove_old (Any_strategy maxsize) t) \<and> any_yield_ok xs (remove_old (Any_strategy maxsize) t)"
      by simp
  qed
  have le: "obs (Any_strategy maxsize) s \<le> w" using s w by simp
  from grow_rule [of I "Any_strategy maxsize" w "any_yield_ok xs" I1 I1 s,
      OF add_stop add_step full stop step drain i0 le]
  obtain ys where ys: "grow (Any_strategy maxsize) w s = Some ys" "list_all (any_yield_ok xs) ys"
    "length ys = (if int (length (any_iterator s)) < w - any_obs s
                           then length (any_iterator s)
                           else length (any_iterator s) + nat (w - 1))" by auto
  have "yields (Any_strategy maxsize) ?r = Some ys" using ys(1) by (simp add: yields_def)
  with c ys s show ?thesis by auto
qed

section \<open>Sum: whole runs\<close>

lemma Sum_strategy_simps [simp]:
  "init_fixed Sum_strategy = Sum_init_fixed" "init_variable Sum_strategy = Sum_init_variable"
  "add_new Sum_strategy = Sum_add_new" "update Sum_strategy = Sum_update"
  "remove_old Sum_strategy = Sum_remove_old" "current_value Sum_strategy = Sum_current_value"
  "obs Sum_strategy = sum_obs" "iterator Sum_strategy = sum_iterator"
  by (simp_all add: Sum_strategy_def)

lemma Sum_incorporate_frame [simp]:
  "sum_iterator (Sum_incorporate v s) = sum_iterator s"
  "sum_obs (Sum_incorporate v s) = sum_obs s"
  by (simp_all add: Sum_incorporate_def)

lemma Sum_evict_frame [simp]:
  "sum_iterator (Sum_evict s) = sum_iterator s"
  "sum_obs (Sum_evict s) = sum_obs s"
  by (simp_all add: Sum_evict_def split: list.splits)

lemma Sum_prime_frame:
  "sum_iterator (foldl (\<lambda>s val. Sum_incorporate val s) s0 head) = sum_iterator s0 \<and>
   sum_obs (foldl (\<lambda>s val. Sum_incorporate val s) s0 head) = sum_obs s0"
  by (induction head arbitrary: s0) simp_all

lemma Sum_update_None: "sum_iterator s = [] \<Longrightarrow> Sum_update s = None"
  by (simp add: Sum_update_def)

lemma Sum_add_new_None: "sum_iterator s = [] \<Longrightarrow> Sum_add_new s = None"
  by (simp add: Sum_add_new_def)

lemma Sum_update_step:
  "sum_iterator s \<noteq> [] \<Longrightarrow>
   \<exists>s'. Sum_update s = Some s' \<and> sum_iterator s' = tl (sum_iterator s) \<and> sum_obs s' = sum_obs s"
  by (cases "sum_iterator s") (simp_all add: Sum_update_def Let_def)

lemma Sum_add_new_step:
  "sum_iterator s \<noteq> [] \<Longrightarrow>
   \<exists>s'. Sum_add_new s = Some s' \<and> sum_iterator s' = tl (sum_iterator s) \<and>
        sum_obs s' = sum_obs s + 1"
  by (cases "sum_iterator s") (simp_all add: Sum_add_new_def)

lemma Sum_remove_old_obs: "sum_obs (Sum_remove_old s) = sum_obs s - 1"
  by (simp add: Sum_remove_old_def)

lemma Sum_fixed_run:
  assumes w: "1 \<le> w"
  shows "\<exists>r ys. construct Sum_strategy xs (PyInt w) ''fixed'' = (Inr r, drop (nat (w - 1)) xs) \<and>
           yields Sum_strategy r = Some ys \<and> length ys = length xs - nat (w - 1)"
proof -
  define s where "s = foldl (\<lambda>s val. Sum_incorporate val s)
                 \<lparr>sum_iterator = drop (nat (w - 1)) xs, sum_window_size = w, sum_obs = w,
                  sum_total = 0, sum_buffer = []\<rparr> (take (nat (w - 1)) xs)"
  have i: "Sum_init_fixed xs w = Inr s"
    by (simp add: Sum_init_fixed_def priming_values_def s_def)
  have it: "sum_iterator s = drop (nat (w - 1)) xs" by (simp add: s_def Sum_prime_frame)
  let ?r = "\<lparr>window_type = Fixed, window_size = w, strategy_state = s\<rparr>"
  have c: "construct Sum_strategy xs (PyInt w) ''fixed'' = (Inr ?r, drop (nat (w - 1)) xs)"
    using w i it by (simp add: construct_def)
  have "\<exists>ys. slide_fixed Sum_strategy s = Some ys \<and> length ys = length (iterator Sum_strategy s) \<and>
          list_all (\<lambda>_. True) ys"
    by (rule slide_fixed_rule [of "\<lambda>_. True"]) (use Sum_update_step in \<open>auto simp: Sum_update_None\<close>)
  then obtain ys where ys: "slide_fixed Sum_strategy s = Some ys"
    "length ys = length (sum_iterator s)" by auto
  have "yields Sum_strategy ?r = Some ys" using ys(1) by (simp add: yields_def)
  with c ys it show ?thesis by auto
qed

lemma Sum_variable_run:
  assumes w: "1 \<le> w"
  shows "\<exists>r ys. construct Sum_strategy xs (PyInt w) ''variable'' = (Inr r, xs) \<and>
           yields Sum_strategy r = Some ys \<and>
           length ys = (if int (length xs) < w then length xs else length xs + nat (w - 1))"
proof -
  define s where "s = \<lparr>sum_iterator = xs, sum_window_size = w, sum_obs = 0,
          sum_total = 0, sum_buffer = []\<rparr>"
  have i: "Sum_init_variable xs w = Inr s" by (simp add: Sum_init_variable_def s_def)
  have f: "sum_iterator s = xs" "sum_obs s = 0" by (simp_all add: s_def)
  let ?r = "\<lparr>window_type = Variable, window_size = w, strategy_state = s\<rparr>"
  have c: "construct Sum_strategy xs (PyInt w) ''variable'' = (Inr ?r, xs)"
    using w i f by (simp add: construct_def)
  have "\<exists>ys. grow Sum_strategy w s = Some ys \<and> list_all (\<lambda>_. True) ys \<and>
              length ys = (if int (length (iterator Sum_strategy s)) < w - obs Sum_strategy s
                           then length (iterator Sum_strategy s)
                           else length (iterator Sum_strategy s) + nat (w - 1))"
    by (rule grow_rule [of "\<lambda>_. True" _ _ _ "\<lambda>_. True" "\<lambda>_. True"])
      (use Sum_update_step Sum_add_new_step w f in
        \<open>auto simp: Sum_update_None Sum_add_new_None Sum_remove_old_obs\<close>)
  then obtain ys where ys: "grow Sum_strategy w s = Some ys"
    "length ys = (if int (length xs) < w then length xs else length xs + nat (w - 1))"
    using f by auto
  have "yields Sum_strategy ?r = Some ys" using ys(1) by (simp add: yields_def)
  with c ys show ?thesis by auto
qed

section \<open>All and Any are dual\<close>

lemma truthy_py_not [simp]: "truthy (py_not v) = (\<not> truthy v)"
  by (simp add: py_not_def)

lemma dual_fields [simp]:
  "any_iterator (dual s) = map py_not (all_iterator s)" "any_i (dual s) = all_i s"
  "any_obs (dual s) = all_obs s" "any_last_true (dual s) = all_last_false s"
  by (simp_all add: dual_def)

lemma dual_current_value: "Any_current_value (dual s) = (\<not> All_current_value s)"
  by (auto simp: Any_current_value_def All_current_value_def)

lemma dual_update: "Any_update (dual s) = map_option dual (All_update s)"
  by (cases "all_iterator s") (simp_all add: Any_update_def All_update_def dual_def Let_def)

lemma dual_add_new: "Any_add_new (dual s) = map_option dual (All_add_new s)"
  by (cases "all_iterator s") (simp_all add: Any_add_new_def All_add_new_def dual_def Let_def)

lemma dual_remove_old: "Any_remove_old (dual s) = dual (All_remove_old s)"
  by (simp add: Any_remove_old_def All_remove_old_def dual_def)

lemma dual_head_loop: "Any_head_loop (map py_not head) i l = All_head_loop head i l"
  by (induction head arbitrary: i l) simp_all

lemma dual_init_fixed:
  "Any_init_fixed maxsize (map py_not xs) w = map_sum id dual (All_init_fixed maxsize xs w)"
  by (simp add: Any_init_fixed_def All_init_fixed_def islice_def dual_head_loop dual_def
      take_map drop_map split: prod.splits)

lemma dual_init_variable:
  "Any_init_variable (map py_not xs) w = map_sum id dual (All_init_variable xs w)"
  by (simp add: Any_init_variable_def All_init_variable_def dual_def)

lemma dual_slide_fixed:
  "slide_fixed (Any_strategy maxsize) (dual s) = map_option (map dual) (slide_fixed (All_strategy maxsize) s)"
proof (induction "length (all_iterator s)" arbitrary: s)
  case 0
  then have "All_update s = None" by (simp add: All_update_None)
  then have "slide_fixed (All_strategy maxsize) s = Some []" "slide_fixed (Any_strategy maxsize) (dual s) = Some []"
    by (subst slide_fixed.simps, simp add: dual_update)+
  then show ?case by simp
next
  case (Suc n)
  then have ne: "all_iterator s \<noteq> []" by auto
  then obtain s' where u: "All_update s = Some s'" and it: "all_iterator s' = tl (all_iterator s)"
    by (cases "all_iterator s") (auto simp: All_update_def Let_def)
  with Suc.hyps(2) have "n = length (all_iterator s')" by simp
  from Suc.hyps(1) [OF this]
  have ih: "slide_fixed (Any_strategy maxsize) (dual s') = map_option (map dual) (slide_fixed (All_strategy maxsize) s')" .
  have a: "slide_fixed (All_strategy maxsize) s =
      Option.bind (slide_fixed (All_strategy maxsize) s') (\<lambda>later. Some (s' # later))"
    by (subst slide_fixed.simps) (simp add: u)
  have b: "slide_fixed (Any_strategy maxsize) (dual s) =
      Option.bind (slide_fixed (Any_strategy maxsize) (dual s')) (\<lambda>later. Some (dual s' # later))"
    by (subst slide_fixed.simps) (simp add: u dual_update)
  show ?case unfolding a b ih by (cases "slide_fixed (All_strategy maxsize) s'") simp_all
qed

lemma dual_shrink:
  "shrink (Any_strategy maxsize) (dual s) = map_option (map dual) (shrink (All_strategy maxsize) s)"
proof (induction "nat (all_obs s - 1)" arbitrary: s)
  case 0
  then have "all_obs s \<le> 1" by simp
  then have "shrink (All_strategy maxsize) s = Some []" "shrink (Any_strategy maxsize) (dual s) = Some []"
    by (subst shrink.simps, simp)+
  then show ?case by simp
next
  case (Suc n)
  then have gt: "1 < all_obs s" by simp
  let ?s' = "All_remove_old s"
  have "all_obs ?s' = all_obs s - 1" by (simp add: All_remove_old_def)
  with Suc.hyps(2) have "n = nat (all_obs ?s' - 1)" by simp
  from Suc.hyps(1) [OF this]
  have ih: "shrink (Any_strategy maxsize) (dual ?s') = map_option (map dual) (shrink (All_strategy maxsize) ?s')" .
  have a: "shrink (All_strategy maxsize) s =
      Option.bind (shrink (All_strategy maxsize) ?s') (\<lambda>later. Some (?s' # later))"
    using gt by (subst shrink.simps) simp
  have b: "shrink (Any_strategy maxsize) (dual s) =
      Option.bind (shrink (Any_strategy maxsize) (dual ?s')) (\<lambda>later. Some (dual ?s' # later))"
    using gt by (subst shrink.simps) (simp add: dual_remove_old)
  show ?case unfolding a b ih by (cases "shrink (All_strategy maxsize) ?s'") simp_all
qed

lemma dual_slide_variable:
  "slide_variable (Any_strategy maxsize) (dual s) = map_option (map dual) (slide_variable (All_strategy maxsize) s)"
proof (induction "length (all_iterator s)" arbitrary: s)
  case 0
  then have "All_update s = None" by (simp add: All_update_None)
  then have "slide_variable (All_strategy maxsize) s = shrink (All_strategy maxsize) s"
    "slide_variable (Any_strategy maxsize) (dual s) = shrink (Any_strategy maxsize) (dual s)"
    by (subst slide_variable.simps, simp add: dual_update)+
  then show ?case by (simp add: dual_shrink)
next
  case (Suc n)
  then have ne: "all_iterator s \<noteq> []" by auto
  then obtain s' where u: "All_update s = Some s'" and it: "all_iterator s' = tl (all_iterator s)"
    by (cases "all_iterator s") (auto simp: All_update_def Let_def)
  with Suc.hyps(2) have "n = length (all_iterator s')" by simp
  from Suc.hyps(1) [OF this]
  have ih: "slide_variable (Any_strategy maxsize) (dual s') =
      map_option (map dual) (slide_variable (All_strategy maxsize) s')" .
  have a: "slide_variable (All_strategy maxsize) s =
      Option.bind (slide_variable (All_strategy maxsize) s') (\<lambda>later. Some (s' # later))"
    by (subst slide_variable.simps) (simp add: u)
  have b: "slide_variable (Any_strategy maxsize) (dual s) =
      Option.bind (slide_variable (Any_strategy maxsize) (dual s')) (\<lambda>later. Some (dual s' # later))"
    by (subst slide_variable.simps) (simp add: u dual_update)
  show ?case unfolding a b ih by (cases "slide_variable (All_strategy maxsize) s'") simp_all
qed

lemma dual_grow:
  "grow (Any_strategy maxsize) w (dual s) = map_option (map dual) (grow (All_strategy maxsize) w s)"
proof (induction "length (all_iterator s)" arbitrary: s)
  case 0
  show ?case
  proof (cases "all_obs s < w")
    case True
    from 0 have "All_add_new s = None" by (simp add: All_add_new_None)
    with True have "grow (All_strategy maxsize) w s = Some []" "grow (Any_strategy maxsize) w (dual s) = Some []"
      by (subst grow.simps, simp add: dual_add_new)+
    then show ?thesis by simp
  next
    case False
    then have "grow (All_strategy maxsize) w s = slide_variable (All_strategy maxsize) s"
      "grow (Any_strategy maxsize) w (dual s) = slide_variable (Any_strategy maxsize) (dual s)"
      by (subst grow.simps, simp)+
    then show ?thesis by (simp add: dual_slide_variable)
  qed
next
  case (Suc n)
  show ?case
  proof (cases "all_obs s < w")
    case True
    from Suc have ne: "all_iterator s \<noteq> []" by auto
    then obtain s' where u: "All_add_new s = Some s'" and it: "all_iterator s' = tl (all_iterator s)"
      by (cases "all_iterator s") (auto simp: All_add_new_def Let_def)
    with Suc.hyps(2) have "n = length (all_iterator s')" by simp
    from Suc.hyps(1) [OF this]
    have ih: "grow (Any_strategy maxsize) w (dual s') = map_option (map dual) (grow (All_strategy maxsize) w s')" .
    have a: "grow (All_strategy maxsize) w s =
        Option.bind (grow (All_strategy maxsize) w s') (\<lambda>later. Some (s' # later))"
      using True by (subst grow.simps) (simp add: u)
    have b: "grow (Any_strategy maxsize) w (dual s) =
        Option.bind (grow (Any_strategy maxsize) w (dual s')) (\<lambda>later. Some (dual s' # later))"
      using True by (subst grow.simps) (simp add: u dual_add_new)
    show ?thesis unfolding a b ih by (cases "grow (All_strategy maxsize) w s'") simp_all
  next
    case False
    then have "grow (All_strategy maxsize) w s = slide_variable (All_strategy maxsize) s"
      "grow (Any_strategy maxsize) w (dual s) = slide_variable (Any_strategy maxsize) (dual s)"
      by (subst grow.simps, simp)+
    then show ?thesis by (simp add: dual_slide_variable)
  qed
qed

lemma dual_rolling:
  "rolling (Any_strategy maxsize) (map py_not xs) k token =
     map_option (map_sum id (map Not)) (rolling (All_strategy maxsize) xs k token)"
proof (cases "fst (construct (All_strategy maxsize) xs k token)")
  case (Inl e)
  then have "fst (construct (Any_strategy maxsize) (map py_not xs) k token) = Inl e"
    by (auto simp: construct_def dual_init_fixed dual_init_variable
        split: option.splits window_type.splits sum.splits)
  with Inl show ?thesis by (simp add: rolling_def)
next
  case (Inr r)
  then have "fst (construct (Any_strategy maxsize) (map py_not xs) k token) =
      Inr \<lparr>window_type = window_type r, window_size = window_size r,
           strategy_state = dual (strategy_state r)\<rparr>"
    by (auto simp: construct_def dual_init_fixed dual_init_variable
        split: option.splits window_type.splits sum.splits)
  with Inr show ?thesis
    by (cases "window_type r")
      (simp_all add: rolling_def produce_def yields_def dual_slide_fixed dual_grow
        option.map_comp comp_def dual_current_value)
qed

section \<open>Outputs of whole runs\<close>

lemma rolling_of_yields:
  "construct S xs k token = (Inr r, rest) \<Longrightarrow> yields S r = Some ys \<Longrightarrow>
   rolling S xs k token = Some (Inr (map (current_value S) ys))"
  by (simp add: rolling_def produce_def)

section \<open>The claims\<close>

text \<open>
  C3. For the All strategy, in every state in which the aggregate is read, current_value
  is True exactly when the last falsy position lies before WindowStart, which is the same
  as Position - ObservedCount >= lastFalsy, with
  WindowStart = Position - ObservedCount + 1.
\<close>

theorem All_current_value_window_start:
  "(All_current_value s \<longleftrightarrow> all_last_false s < WindowStart (all_i s) (all_obs s)) \<and>
   (all_last_false s < WindowStart (all_i s) (all_obs s) \<longleftrightarrow>
      all_i s - all_obs s \<ge> all_last_false s)"
  by (auto simp: All_current_value_def WindowStart_def)

text \<open>
  C4. For the Any strategy, in every state in which the aggregate is read, current_value
  is True exactly when the last truthy position is at or after WindowStart, which is the
  same as Position - ObservedCount < lastTruthy.
\<close>

theorem Any_current_value_window_start:
  "(Any_current_value s \<longleftrightarrow> any_last_true s \<ge> WindowStart (any_i s) (any_obs s)) \<and>
   (any_last_true s \<ge> WindowStart (any_i s) (any_obs s) \<longleftrightarrow>
      any_i s - any_obs s < any_last_true s)"
  by (auto simp: Any_current_value_def WindowStart_def)

text \<open>
  C8. Frame property of eviction: one call of \<^verbatim>\<open>_remove_old\<close> lowers ObservedCount by
  exactly one and leaves the position, the retained last-falsy or last-truthy position and
  the iterator as they were, for All and for Any.
\<close>

theorem remove_old_frame:
  "all_obs (All_remove_old s) = all_obs s - 1 \<and>
   all_i (All_remove_old s) = all_i s \<and>
   all_last_false (All_remove_old s) = all_last_false s \<and>
   all_iterator (All_remove_old s) = all_iterator s \<and>
   All_remove_old s = s\<lparr>all_obs := all_obs s - 1\<rparr> \<and>
   any_obs (Any_remove_old t) = any_obs t - 1 \<and>
   any_i (Any_remove_old t) = any_i t \<and>
   any_last_true (Any_remove_old t) = any_last_true t \<and>
   any_iterator (Any_remove_old t) = any_iterator t \<and>
   Any_remove_old t = t\<lparr>any_obs := any_obs t - 1\<rparr>"
  by (simp add: All_remove_old_def Any_remove_old_def)

text \<open>
  C10. Empty-window identities: in variable mode, right after \<^verbatim>\<open>_init_variable\<close> and
  before any value has been taken in (ObservedCount = 0, nothing consumed), All's
  current_value is True and Any's is False, for every window size that is not negative.
\<close>

theorem init_variable_identities:
  assumes "0 \<le> w"
  shows "\<exists>s t. All_init_variable iterable w = Inr s \<and>
               Any_init_variable iterable w = Inr t \<and>
               all_obs s = 0 \<and> any_obs t = 0 \<and>
               all_iterator s = iterable \<and> any_iterator t = iterable \<and>
               All_current_value s = True \<and> Any_current_value t = False"
  using assms
  by (simp add: All_init_variable_def Any_init_variable_def All_current_value_def
      Any_current_value_def)

theorem init_variable_identities_witness:
  "(0::int) \<le> 3 \<and>
   (\<exists>s t. All_init_variable [PyInt 8, PyInt 0] 3 = Inr s \<and>
          Any_init_variable [PyInt 8, PyInt 0] 3 = Inr t \<and>
          all_obs s = 0 \<and> any_obs t = 0 \<and>
          all_iterator s = [PyInt 8, PyInt 0] \<and> any_iterator t = [PyInt 8, PyInt 0] \<and>
          All_current_value s = True \<and> Any_current_value t = False)"
  using init_variable_identities [of 3 "[PyInt 8, PyInt 0]"] by simp

text \<open>
  C1. For All and for Any, in variable mode for every window size w >= 1 and in fixed mode
  for every window size with 0 <= w - 1 <= sys.maxsize (the sizes at which \<^verbatim>\<open>_init_fixed\<close>
  does not raise), every state at which an aggregate is yielded has an ObservedCount of at
  least one that does not exceed the number of values consumed from the source, and its
  incremental current_value (read off _i, _obs and _last_false or _last_true) equals the
  brute-force aggregate of the last ObservedCount values consumed: their conjunction for
  All, their disjunction for Any.
\<close>

theorem current_value_equals_brute_force:
  assumes "1 \<le> w" and "token = ''fixed'' \<and> w - 1 \<le> maxsize \<or> token = ''variable''"
  shows "(\<exists>r ys. fst (construct (All_strategy maxsize) xs (PyInt w) token) = Inr r \<and>
            yields (All_strategy maxsize) r = Some ys \<and>
            (\<forall>s \<in> set ys.
               1 \<le> all_obs s \<and> nat (all_obs s) \<le> length (consumed xs (all_iterator s)) \<and>
               All_current_value s = brute_all (all_obs s) (consumed xs (all_iterator s)))) \<and>
         (\<exists>r ys. fst (construct (Any_strategy maxsize) xs (PyInt w) token) = Inr r \<and>
            yields (Any_strategy maxsize) r = Some ys \<and>
            (\<forall>s \<in> set ys.
               1 \<le> any_obs s \<and> nat (any_obs s) \<le> length (consumed xs (any_iterator s)) \<and>
               Any_current_value s = brute_any (any_obs s) (consumed xs (any_iterator s))))"
proof -
  have a: "\<exists>r ys. fst (construct (All_strategy maxsize) xs (PyInt w) token) = Inr r \<and>
            yields (All_strategy maxsize) r = Some ys \<and> list_all (all_yield_ok xs) ys"
    using assms All_fixed_run [of w maxsize xs] All_variable_run [of w maxsize xs] by auto
  have b: "\<exists>r ys. fst (construct (Any_strategy maxsize) xs (PyInt w) token) = Inr r \<and>
            yields (Any_strategy maxsize) r = Some ys \<and> list_all (any_yield_ok xs) ys"
    using assms Any_fixed_run [of w maxsize xs] Any_variable_run [of w maxsize xs] by auto
  from a b show ?thesis
    unfolding list_all_iff all_yield_ok_def any_yield_ok_def by blast
qed

theorem current_value_equals_brute_force_witness:
  "(1::int) \<le> 3 \<and>
   (''fixed'' = ''fixed'' \<and> (3::int) - 1 \<le> 9223372036854775807 \<or> ''fixed'' = ''variable'') \<and>
   (\<exists>r ys. fst (construct (All_strategy 9223372036854775807) (map PyInt [8, 0, 1, 3, 6, 5])
                  (PyInt 3) ''fixed'') = Inr r \<and>
      yields (All_strategy 9223372036854775807) r = Some ys \<and> length ys = 4 \<and>
      (\<forall>s \<in> set ys.
         1 \<le> all_obs s \<and>
         nat (all_obs s) \<le> length (consumed (map PyInt [8, 0, 1, 3, 6, 5]) (all_iterator s)) \<and>
         All_current_value s =
           brute_all (all_obs s) (consumed (map PyInt [8, 0, 1, 3, 6, 5]) (all_iterator s)))) \<and>
   (\<exists>r ys. fst (construct (Any_strategy 9223372036854775807) (map PyInt [8, 0, 1, 3, 6, 5])
                  (PyInt 3) ''fixed'') = Inr r \<and>
      yields (Any_strategy 9223372036854775807) r = Some ys \<and> length ys = 4 \<and>
      (\<forall>s \<in> set ys.
         1 \<le> any_obs s \<and>
         nat (any_obs s) \<le> length (consumed (map PyInt [8, 0, 1, 3, 6, 5]) (any_iterator s)) \<and>
         Any_current_value s =
           brute_any (any_obs s) (consumed (map PyInt [8, 0, 1, 3, 6, 5]) (any_iterator s))))"
proof -
  let ?xs = "map PyInt [8, 0, 1, 3, 6, 5]"
  let ?m = "9223372036854775807 :: int"
  have h1: "(1::int) \<le> 3" by simp
  have h2: "''fixed'' = ''fixed'' \<and> (3::int) - 1 \<le> ?m \<or> ''fixed'' = ''variable''" by simp
  have la: "rolling (All_strategy ?m) ?xs (PyInt 3) ''fixed'' =
      Some (Inr [False, False, True, True])"
    by code_simp
  have lb: "rolling (Any_strategy ?m) ?xs (PyInt 3) ''fixed'' =
      Some (Inr [True, True, True, True])"
    by code_simp
  from current_value_equals_brute_force [OF h1 h2, of ?xs]
  obtain r ys r' ys' where
    a: "fst (construct (All_strategy ?m) ?xs (PyInt 3) ''fixed'') = Inr r"
      "yields (All_strategy ?m) r = Some ys"
      "\<forall>s \<in> set ys.
         1 \<le> all_obs s \<and> nat (all_obs s) \<le> length (consumed ?xs (all_iterator s)) \<and>
         All_current_value s = brute_all (all_obs s) (consumed ?xs (all_iterator s))"
    and b: "fst (construct (Any_strategy ?m) ?xs (PyInt 3) ''fixed'') = Inr r'"
      "yields (Any_strategy ?m) r' = Some ys'"
      "\<forall>s \<in> set ys'.
         1 \<le> any_obs s \<and> nat (any_obs s) \<le> length (consumed ?xs (any_iterator s)) \<and>
         Any_current_value s = brute_any (any_obs s) (consumed ?xs (any_iterator s))"
    by auto
  from la a(1,2) have "map All_current_value ys = [False, False, True, True]"
    by (simp add: rolling_def produce_def)
  then have "length (map All_current_value ys) = 4" by simp
  then have na: "length ys = 4" by simp
  from lb b(1,2) have "map Any_current_value ys' = [True, True, True, True]"
    by (simp add: rolling_def produce_def)
  then have "length (map Any_current_value ys') = 4" by simp
  then have nb: "length ys' = 4" by simp
  let ?A = "\<exists>r ys. fst (construct (All_strategy ?m) ?xs (PyInt 3) ''fixed'') = Inr r \<and>
      yields (All_strategy ?m) r = Some ys \<and> length ys = 4 \<and>
      (\<forall>s \<in> set ys.
         1 \<le> all_obs s \<and> nat (all_obs s) \<le> length (consumed ?xs (all_iterator s)) \<and>
         All_current_value s = brute_all (all_obs s) (consumed ?xs (all_iterator s)))"
  let ?B = "\<exists>r ys. fst (construct (Any_strategy ?m) ?xs (PyInt 3) ''fixed'') = Inr r \<and>
      yields (Any_strategy ?m) r = Some ys \<and> length ys = 4 \<and>
      (\<forall>s \<in> set ys.
         1 \<le> any_obs s \<and> nat (any_obs s) \<le> length (consumed ?xs (any_iterator s)) \<and>
         Any_current_value s = brute_any (any_obs s) (consumed ?xs (any_iterator s)))"
  have A: ?A using a na by blast
  have B: ?B using b nb by blast
  show ?thesis by (rule conjI [OF h1 conjI [OF h2 conjI [OF A B]]])
qed

text \<open>
  C2 (as the code has it). For every input of length N and every window size w >= 1:
  fixed mode produces max(0, N - w + 1) aggregates, for Sum always and for All and Any
  when w - 1 <= sys.maxsize; beyond that bound the construction of All and Any raises
  ValueError and there is no output sequence. Variable mode produces N aggregates when
  N < w, and N + w - 1 when N >= w, the last w - 1 of them while the full window is shrunk
  after the source is exhausted.
\<close>

theorem output_count_by_mode:
  assumes "1 \<le> w"
  shows "(w - 1 \<le> maxsize \<longrightarrow>
            output_count (All_strategy maxsize) xs (PyInt w) ''fixed'' =
              Some (nat (max 0 (int (length xs) - w + 1))) \<and>
            output_count (Any_strategy maxsize) xs (PyInt w) ''fixed'' =
              Some (nat (max 0 (int (length xs) - w + 1)))) \<and>
         (maxsize < w - 1 \<longrightarrow>
            rolling (All_strategy maxsize) xs (PyInt w) ''fixed'' = Some (Inl ValueError) \<and>
            rolling (Any_strategy maxsize) xs (PyInt w) ''fixed'' = Some (Inl ValueError)) \<and>
         output_count Sum_strategy ns (PyInt w) ''fixed'' =
           Some (nat (max 0 (int (length ns) - w + 1))) \<and>
         output_count (All_strategy maxsize) xs (PyInt w) ''variable'' =
           Some (if int (length xs) < w then length xs else length xs + nat (w - 1)) \<and>
         output_count (Any_strategy maxsize) xs (PyInt w) ''variable'' =
           Some (if int (length xs) < w then length xs else length xs + nat (w - 1)) \<and>
         output_count Sum_strategy ns (PyInt w) ''variable'' =
           Some (if int (length ns) < w then length ns else length ns + nat (w - 1))"
proof -
  have n: "\<And>m. m - nat (w - 1) = nat (max 0 (int m - w + 1))"
    using assms by auto
  have fa: "w - 1 \<le> maxsize \<Longrightarrow>
      output_count (All_strategy maxsize) xs (PyInt w) ''fixed'' = Some (length xs - nat (w - 1))"
    using All_fixed_run [OF assms, of maxsize xs]
    by (auto simp: output_count_def dest: rolling_of_yields)
  have fb: "w - 1 \<le> maxsize \<Longrightarrow>
      output_count (Any_strategy maxsize) xs (PyInt w) ''fixed'' = Some (length xs - nat (w - 1))"
    using Any_fixed_run [OF assms, of maxsize xs]
    by (auto simp: output_count_def dest: rolling_of_yields)
  have ea: "maxsize < w - 1 \<Longrightarrow>
      rolling (All_strategy maxsize) xs (PyInt w) ''fixed'' = Some (Inl ValueError)"
    using All_fixed_too_large [OF assms, of maxsize xs] by (simp add: rolling_def)
  have eb: "maxsize < w - 1 \<Longrightarrow>
      rolling (Any_strategy maxsize) xs (PyInt w) ''fixed'' = Some (Inl ValueError)"
    using Any_fixed_too_large [OF assms, of maxsize xs] by (simp add: rolling_def)
  have fs: "output_count Sum_strategy ns (PyInt w) ''fixed'' = Some (length ns - nat (w - 1))"
    using Sum_fixed_run [OF assms, of ns] by (auto simp: output_count_def dest: rolling_of_yields)
  have va: "output_count (All_strategy maxsize) xs (PyInt w) ''variable'' =
           Some (if int (length xs) < w then length xs else length xs + nat (w - 1))"
    using All_variable_run [OF assms, of maxsize xs]
    by (auto simp: output_count_def dest: rolling_of_yields)
  have vb: "output_count (Any_strategy maxsize) xs (PyInt w) ''variable'' =
           Some (if int (length xs) < w then length xs else length xs + nat (w - 1))"
    using Any_variable_run [OF assms, of maxsize xs]
    by (auto simp: output_count_def dest: rolling_of_yields)
  have vs: "output_count Sum_strategy ns (PyInt w) ''variable'' =
           Some (if int (length ns) < w then length ns else length ns + nat (w - 1))"
    using Sum_variable_run [OF assms, of ns]
    by (auto simp: output_count_def dest: rolling_of_yields)
  from fa fb ea eb fs va vb vs show ?thesis unfolding n by blast
qed

theorem output_count_by_mode_witness:
  "(1::int) \<le> 3 \<and> (3::int) - 1 \<le> 9223372036854775807 \<and>
   output_count (All_strategy 9223372036854775807) (map PyInt [8, 0, 1, 3, 6, 5]) (PyInt 3)
     ''fixed'' = Some 4 \<and>
   output_count (Any_strategy 9223372036854775807) (map PyInt [8, 0, 1, 3, 6, 5]) (PyInt 3)
     ''fixed'' = Some 4 \<and>
   output_count Sum_strategy [3, 0, 1, 7, 2] (PyInt 3) ''fixed'' = Some 3 \<and>
   output_count (All_strategy 9223372036854775807) (map PyInt [8, 0, 1, 3, 6, 5]) (PyInt 3)
     ''variable'' = Some 8 \<and>
   output_count (Any_strategy 9223372036854775807) (map PyInt [8, 0, 1, 3, 6, 5]) (PyInt 3)
     ''variable'' = Some 8 \<and>
   output_count Sum_strategy [3, 0, 1, 7, 2] (PyInt 3) ''variable'' = Some 7 \<and>
   (1::int) \<le> 9223372036854775809 \<and> (9223372036854775807::int) < 9223372036854775809 - 1 \<and>
   rolling (All_strategy 9223372036854775807) [PyInt 8, PyInt 0] (PyInt 9223372036854775809)
     ''fixed'' = Some (Inl ValueError) \<and>
   rolling (Any_strategy 9223372036854775807) [PyInt 8, PyInt 0] (PyInt 9223372036854775809)
     ''fixed'' = Some (Inl ValueError)"
  using output_count_by_mode
      [of 3 9223372036854775807 "map PyInt [8, 0, 1, 3, 6, 5]" "[3, 0, 1, 7, 2]"]
    output_count_by_mode
      [of 9223372036854775809 9223372036854775807 "[PyInt 8, PyInt 0]" "[3, 0, 1, 7, 2]"]
  by simp

text \<open>
  C2 as stated fails in variable mode: on the five values of tests/test_arithmetic.py with
  window size 3 the run produces seven aggregates, not five.
\<close>

theorem output_count_variable_counterexample:
  "output_count Sum_strategy [3, 0, 1, 7, 2] (PyInt 3) ''variable'' = Some 7 \<and>
   output_count Sum_strategy [3, 0, 1, 7, 2] (PyInt 3) ''variable'' \<noteq>
     Some (length [3, 0, 1, 7, 2 :: int])"
  by code_simp

text \<open>
  C5. AND/OR duality. All on a sequence and Any on its elementwise negation (\<open>py_not\<close>;
  on a boolean sequence, the negated booleans) run in lockstep for every window size,
  window type and sys.maxsize: they fail with the same error or produce output sequences
  that are elementwise negations of each other. For every window size w >= 1, in variable
  mode and in fixed mode with w - 1 <= sys.maxsize, both do produce outputs, equally many,
  and at every index the output of All is the negation of the output of Any.
\<close>

theorem all_any_duality:
  "rolling (Any_strategy maxsize) (map py_not xs) k token =
     map_option (map_sum id (map Not)) (rolling (All_strategy maxsize) xs k token) \<and>
   (1 \<le> w \<and> (token = ''fixed'' \<and> w - 1 \<le> maxsize \<or> token = ''variable'') \<longrightarrow>
      (\<exists>a b. rolling (All_strategy maxsize) xs (PyInt w) token = Some (Inr a) \<and>
             rolling (Any_strategy maxsize) (map py_not xs) (PyInt w) token = Some (Inr b) \<and>
             length a = length b \<and> (\<forall>i < length a. a ! i = (\<not> b ! i))))"
proof (intro conjI impI)
  show "rolling (Any_strategy maxsize) (map py_not xs) k token =
     map_option (map_sum id (map Not)) (rolling (All_strategy maxsize) xs k token)"
    by (rule dual_rolling)
next
  assume h: "1 \<le> w \<and> (token = ''fixed'' \<and> w - 1 \<le> maxsize \<or> token = ''variable'')"
  then have "\<exists>a. rolling (All_strategy maxsize) xs (PyInt w) token = Some (Inr a)"
    using All_fixed_run [of w maxsize xs] All_variable_run [of w maxsize xs]
    by (auto dest: rolling_of_yields)
  then obtain a where a: "rolling (All_strategy maxsize) xs (PyInt w) token = Some (Inr a)" ..
  then have "rolling (Any_strategy maxsize) (map py_not xs) (PyInt w) token =
      Some (Inr (map Not a))"
    by (simp add: dual_rolling)
  with a show "\<exists>a b. rolling (All_strategy maxsize) xs (PyInt w) token = Some (Inr a) \<and>
             rolling (Any_strategy maxsize) (map py_not xs) (PyInt w) token = Some (Inr b) \<and>
             length a = length b \<and> (\<forall>i < length a. a ! i = (\<not> b ! i))"
    by simp
qed

theorem all_any_duality_witness:
  "(1::int) \<le> 4 \<and>
   (''fixed'' = ''fixed'' \<and> (4::int) - 1 \<le> 9223372036854775807 \<or> ''fixed'' = ''variable'') \<and>
   rolling (All_strategy 9223372036854775807)
     (map PyBool [True, False, True, True, True, True]) (PyInt 4) ''fixed'' =
     Some (Inr [False, False, True]) \<and>
   rolling (Any_strategy 9223372036854775807)
     (map py_not (map PyBool [True, False, True, True, True, True])) (PyInt 4) ''fixed'' =
     Some (Inr [True, True, False]) \<and>
   (\<exists>a b. rolling (All_strategy 9223372036854775807)
            (map PyBool [True, False, True, True, True, True]) (PyInt 4) ''fixed'' =
            Some (Inr a) \<and>
          rolling (Any_strategy 9223372036854775807)
            (map py_not (map PyBool [True, False, True, True, True, True])) (PyInt 4) ''fixed'' =
            Some (Inr b) \<and>
          length a = length b \<and> (\<forall>i < length a. a ! i = (\<not> b ! i)))"
proof -
  let ?xs = "map PyBool [True, False, True, True, True, True]"
  let ?m = "9223372036854775807 :: int"
  have h1: "(1::int) \<le> 4" by simp
  have h2: "''fixed'' = ''fixed'' \<and> (4::int) - 1 \<le> ?m \<or> ''fixed'' = ''variable''" by simp
  have a: "rolling (All_strategy ?m) ?xs (PyInt 4) ''fixed'' = Some (Inr [False, False, True])"
    by code_simp
  have b: "rolling (Any_strategy ?m) (map py_not ?xs) (PyInt 4) ''fixed'' =
      Some (Inr [True, True, False])"
    by code_simp
  from all_any_duality [of ?m ?xs "PyInt 4" "''fixed''" 4] h1 h2
  have d: "\<exists>a b. rolling (All_strategy ?m) ?xs (PyInt 4) ''fixed'' = Some (Inr a) \<and>
          rolling (Any_strategy ?m) (map py_not ?xs) (PyInt 4) ''fixed'' = Some (Inr b) \<and>
          length a = length b \<and> (\<forall>i < length a. a ! i = (\<not> b ! i))"
    by blast
  show ?thesis by (rule conjI [OF h1 conjI [OF h2 conjI [OF a conjI [OF b d]]]])
qed

text \<open>
  C6. Running-sum conformance on the input [3,0,1,7,2]: fixed mode gives [4,8,10] for
  window size 3, the input itself for window size 1 and nothing for window size 6;
  variable mode with window size 3 gives [3,3,4,8,10,9,2].
\<close>

theorem running_sum_conformance:
  "rolling Sum_strategy [3, 0, 1, 7, 2] (PyInt 3) ''fixed'' = Some (Inr [4, 8, 10]) \<and>
   rolling Sum_strategy [3, 0, 1, 7, 2] (PyInt 1) ''fixed'' = Some (Inr [3, 0, 1, 7, 2]) \<and>
   rolling Sum_strategy [3, 0, 1, 7, 2] (PyInt 6) ''fixed'' = Some (Inr []) \<and>
   rolling Sum_strategy [3, 0, 1, 7, 2] (PyInt 3) ''variable'' =
     Some (Inr [3, 3, 4, 8, 10, 9, 2])"
  by code_simp

text \<open>
  C7. In fixed mode, when the source has fewer than window_size - 1 values (and
  window_size - 1 is at most sys.maxsize, so that \<^verbatim>\<open>islice\<close> accepts it), priming consumes
  all of them and the output sequence is empty, for All, Any and Sum.
\<close>

theorem fixed_short_source_no_output:
  assumes "1 \<le> w" and "w - 1 \<le> maxsize"
    and "int (length xs) < w - 1" and "int (length ns) < w - 1"
  shows "rolling (All_strategy maxsize) xs (PyInt w) ''fixed'' = Some (Inr []) \<and>
         snd (construct (All_strategy maxsize) xs (PyInt w) ''fixed'') = [] \<and>
         rolling (Any_strategy maxsize) xs (PyInt w) ''fixed'' = Some (Inr []) \<and>
         snd (construct (Any_strategy maxsize) xs (PyInt w) ''fixed'') = [] \<and>
         rolling Sum_strategy ns (PyInt w) ''fixed'' = Some (Inr []) \<and>
         snd (construct Sum_strategy ns (PyInt w) ''fixed'') = []"
proof -
  from assms have x: "length xs - nat (w - 1) = 0" "drop (nat (w - 1)) xs = []"
    and n: "length ns - nat (w - 1) = 0" "drop (nat (w - 1)) ns = []" by auto
  have "rolling (All_strategy maxsize) xs (PyInt w) ''fixed'' = Some (Inr []) \<and>
         snd (construct (All_strategy maxsize) xs (PyInt w) ''fixed'') = []"
    using All_fixed_run [OF assms(1,2), of xs] x by (auto dest: rolling_of_yields)
  moreover
  have "rolling (Any_strategy maxsize) xs (PyInt w) ''fixed'' = Some (Inr []) \<and>
         snd (construct (Any_strategy maxsize) xs (PyInt w) ''fixed'') = []"
    using Any_fixed_run [OF assms(1,2), of xs] x by (auto dest: rolling_of_yields)
  moreover
  have "rolling Sum_strategy ns (PyInt w) ''fixed'' = Some (Inr []) \<and>
         snd (construct Sum_strategy ns (PyInt w) ''fixed'') = []"
    using Sum_fixed_run [OF assms(1), of ns] n by (auto dest: rolling_of_yields)
  ultimately show ?thesis by blast
qed

theorem fixed_short_source_no_output_witness:
  "(1::int) \<le> 4 \<and> (4::int) - 1 \<le> 9223372036854775807 \<and>
   int (length [PyInt 8, PyInt 0]) < 4 - 1 \<and> int (length [3, 0 :: int]) < 4 - 1 \<and>
   rolling (All_strategy 9223372036854775807) [PyInt 8, PyInt 0] (PyInt 4) ''fixed'' =
     Some (Inr []) \<and>
   snd (construct (All_strategy 9223372036854775807) [PyInt 8, PyInt 0] (PyInt 4) ''fixed'') = [] \<and>
   rolling (Any_strategy 9223372036854775807) [PyInt 8, PyInt 0] (PyInt 4) ''fixed'' =
     Some (Inr []) \<and>
   snd (construct (Any_strategy 9223372036854775807) [PyInt 8, PyInt 0] (PyInt 4) ''fixed'') = [] \<and>
   rolling Sum_strategy [3, 0] (PyInt 4) ''fixed'' = Some (Inr []) \<and>
   snd (construct Sum_strategy [3, 0] (PyInt 4) ''fixed'') = []"
  using fixed_short_source_no_output [of 4 9223372036854775807 "[PyInt 8, PyInt 0]" "[3, 0]"]
  by simp

text \<open>
  C9. Construction fails with a ConfigurationError when window_size is not a positive
  integer or the window-type token is not recognised, for any strategy, and leaves the
  source untouched. With a positive integer and a recognised token no ConfigurationError
  is raised: construction of Sum succeeds, and construction of All and Any succeeds in
  variable mode and in fixed mode with window_size - 1 <= sys.maxsize (beyond that bound
  their \<^verbatim>\<open>_init_fixed\<close> raises ValueError, which is not a ConfigurationError).
\<close>

theorem construct_configuration_error:
  "((\<forall>n. k = PyInt n \<longrightarrow> n \<le> 0) \<or> (token \<noteq> ''fixed'' \<and> token \<noteq> ''variable'') \<longrightarrow>
      construct S source k token = (Inl ConfigurationError, source)) \<and>
   (0 < w \<and> (token = ''fixed'' \<or> token = ''variable'') \<longrightarrow>
      fst (construct (All_strategy maxsize) xs (PyInt w) token) \<noteq> Inl ConfigurationError \<and>
      fst (construct (Any_strategy maxsize) xs (PyInt w) token) \<noteq> Inl ConfigurationError \<and>
      (\<exists>r. fst (construct Sum_strategy ns (PyInt w) token) = Inr r)) \<and>
   (0 < w \<and> (token = ''fixed'' \<and> w - 1 \<le> maxsize \<or> token = ''variable'') \<longrightarrow>
      (\<exists>r. fst (construct (All_strategy maxsize) xs (PyInt w) token) = Inr r) \<and>
      (\<exists>r. fst (construct (Any_strategy maxsize) xs (PyInt w) token) = Inr r))"
proof (intro conjI impI)
  assume "(\<forall>n. k = PyInt n \<longrightarrow> n \<le> 0) \<or> (token \<noteq> ''fixed'' \<and> token \<noteq> ''variable'')"
  then show "construct S source k token = (Inl ConfigurationError, source)"
    by (cases k)
      (auto simp: construct_def parse_window_type_def validate_window_size_def
        split: option.splits)
next
  assume v: "0 < w \<and> (token = ''fixed'' \<and> w - 1 \<le> maxsize \<or> token = ''variable'')"
  then have w: "1 \<le> w" by simp
  show "\<exists>r. fst (construct (All_strategy maxsize) xs (PyInt w) token) = Inr r"
    using v All_fixed_run [OF w, of maxsize xs] All_variable_run [OF w, of maxsize xs] by auto
  show "\<exists>r. fst (construct (Any_strategy maxsize) xs (PyInt w) token) = Inr r"
    using v Any_fixed_run [OF w, of maxsize xs] Any_variable_run [OF w, of maxsize xs] by auto
next
  assume v: "0 < w \<and> (token = ''fixed'' \<or> token = ''variable'')"
  then have w: "1 \<le> w" by simp
  show "\<exists>r. fst (construct Sum_strategy ns (PyInt w) token) = Inr r"
    using v Sum_fixed_run [OF w, of ns] Sum_variable_run [OF w, of ns] by auto
  show "fst (construct (All_strategy maxsize) xs (PyInt w) token) \<noteq> Inl ConfigurationError"
  proof (cases "token = ''fixed'' \<and> maxsize < w - 1")
    case True
    with All_fixed_too_large [OF w, of maxsize xs] show ?thesis by simp
  next
    case False
    with v All_fixed_run [OF w, of maxsize xs] All_variable_run [OF w, of maxsize xs]
    show ?thesis by auto
  qed
  show "fst (construct (Any_strategy maxsize) xs (PyInt w) token) \<noteq> Inl ConfigurationError"
  proof (cases "token = ''fixed'' \<and> maxsize < w - 1")
    case True
    with Any_fixed_too_large [OF w, of maxsize xs] show ?thesis by simp
  next
    case False
    with v Any_fixed_run [OF w, of maxsize xs] Any_variable_run [OF w, of maxsize xs]
    show ?thesis by auto
  qed
qed

theorem construct_configuration_error_witness:
  "construct (All_strategy 9223372036854775807) [PyInt 8, PyInt 0] (PyInt 0) ''fixed'' =
     (Inl ConfigurationError, [PyInt 8, PyInt 0]) \<and>
   construct (All_strategy 9223372036854775807) [PyInt 8, PyInt 0] (PyStr ''3'') ''fixed'' =
     (Inl ConfigurationError, [PyInt 8, PyInt 0]) \<and>
   construct (All_strategy 9223372036854775807) [PyInt 8, PyInt 0] (PyInt 3) ''sliding'' =
     (Inl ConfigurationError, [PyInt 8, PyInt 0]) \<and>
   (\<exists>r. fst (construct (All_strategy 9223372036854775807) [PyInt 8, PyInt 0] (PyInt 3)
               ''fixed'') = Inr r) \<and>
   (\<exists>r. fst (construct (Any_strategy 9223372036854775807) [PyInt 8, PyInt 0] (PyInt 3)
               ''fixed'') = Inr r) \<and>
   (\<exists>r. fst (construct Sum_strategy [3, 0] (PyInt 3) ''fixed'') = Inr r) \<and>
   fst (construct (All_strategy 9223372036854775807) [PyInt 8, PyInt 0]
          (PyInt 9223372036854775809) ''fixed'') \<noteq> Inl ConfigurationError \<and>
   fst (construct (Any_strategy 9223372036854775807) [PyInt 8, PyInt 0]
          (PyInt 9223372036854775809) ''fixed'') \<noteq> Inl ConfigurationError"
  using construct_configuration_error
      [of "PyInt 0" "''fixed''" "All_strategy 9223372036854775807" "[PyInt 8, PyInt 0]"
          3 9223372036854775807 "[PyInt 8, PyInt 0]" "[3, 0]"]
    construct_configuration_error
      [of "PyStr ''3''" "''fixed''" "All_strategy 9223372036854775807" "[PyInt 8, PyInt 0]"
          3 9223372036854775807 "[PyInt 8, PyInt 0]" "[3, 0]"]
    construct_configuration_error
      [of "PyInt 3" "''sliding''" "All_strategy 9223372036854775807" "[PyInt 8, PyInt 0]"
          3 9223372036854775807 "[PyInt 8, PyInt 0]" "[3, 0]"]
    construct_configuration_error
      [of "PyInt 3" "''fixed''" "All_strategy 9223372036854775807" "[PyInt 8, PyInt 0]"
          3 9223372036854775807 "[PyInt 8, PyInt 0]" "[3, 0]"]
    construct_configuration_error
      [of "PyInt 3" "''fixed''" "All_strategy 9223372036854775807" "[PyInt 8, PyInt 0]"
          9223372036854775809 9223372036854775807 "[PyInt 8, PyInt 0]" "[3, 0]"]
  by simp

end
